theory Spec2Isabelle
  imports Main "HOL-Library.Word"
begin

unbundle bit_operations_syntax

section \<open>Bytes, Python slices and errors\<close>

text \<open>
  The two scripts \<^verbatim>\<open>scripts/make_inline.py\<close> and \<^verbatim>\<open>scripts/make_bps.py\<close> work on
  Python \<^verbatim>\<open>bytes\<close> and \<^verbatim>\<open>bytearray\<close> values. A byte is an 8-bit word, an image is a
  list of bytes, offsets are Python integers (\<open>int\<close>). Every \<^verbatim>\<open>raise\<close> of the scripts is a
  value of \<open>error\<close>; a function that can raise returns \<open>error + 'a\<close>.
\<close>

type_synonym byte = "8 word"

datatype error =
  ValueError string
  | SystemExit string
  | KeystoneError

text \<open>
  \<^verbatim>\<open>xs[i:j]\<close> and \<^verbatim>\<open>xs[i:j] = ys\<close> with Python's rules: a negative index counts from
  the end, every index is clamped into \<open>0..len(xs)\<close>, and an assignment whose stop lies
  before its start inserts at the start.
\<close>

definition py_index :: "nat \<Rightarrow> int \<Rightarrow> nat" where
  "py_index n i = (if i < 0 then nat (max 0 (int n + i)) else min n (nat i))"

definition py_slice :: "'a list \<Rightarrow> int \<Rightarrow> int \<Rightarrow> 'a list" where
  "py_slice xs i j =
     (let a = py_index (length xs) i; b = py_index (length xs) j
      in take (b - a) (drop a xs))"

definition py_set_slice :: "'a list \<Rightarrow> int \<Rightarrow> int \<Rightarrow> 'a list \<Rightarrow> 'a list" where
  "py_set_slice xs i j ys =
     (let a = py_index (length xs) i; b = max a (py_index (length xs) j)
      in take a xs @ ys @ drop b xs)"

text \<open>
  \<^verbatim>\<open>str.isspace\<close> on the characters with a code below 256 (the characters of \<open>char\<close>),
  \<^verbatim>\<open>str.strip()\<close>, \<^verbatim>\<open>str.split(" ")\<close> and \<^verbatim>\<open>str.split()\<close>.
\<close>

definition py_isspace :: "char \<Rightarrow> bool" where
  "py_isspace c =
     (let n = (of_char c :: nat)
      in (9 \<le> n \<and> n \<le> 13) \<or> (28 \<le> n \<and> n \<le> 32) \<or> n = 133 \<or> n = 160)"

definition py_strip :: "string \<Rightarrow> string" where
  "py_strip s = rev (dropWhile py_isspace (rev (dropWhile py_isspace s)))"

fun split_on :: "char \<Rightarrow> string \<Rightarrow> string list" where
  "split_on d [] = [[]]"
| "split_on d (c # cs) =
     (if c = d then [] # split_on d cs
      else (case split_on d cs of w # ws \<Rightarrow> (c # w) # ws | [] \<Rightarrow> [[c]]))"

fun py_split_ws :: "string \<Rightarrow> string \<Rightarrow> string list" where
  "py_split_ws acc [] = (if acc = [] then [] else [rev acc])"
| "py_split_ws acc (c # cs) =
     (if py_isspace c then (if acc = [] then py_split_ws [] cs else rev acc # py_split_ws [] cs)
      else py_split_ws (c # acc) cs)"

section \<open>AOB patterns of make_inline.py\<close>

text \<open>The value of a hexadecimal digit, \<^verbatim>\<open>int(ch, 16)\<close> for one character.\<close>

definition hex_digit :: "char \<Rightarrow> nat option" where
  "hex_digit c =
     (let n = (of_char c :: nat) in
      if 48 \<le> n \<and> n \<le> 57 then Some (n - 48)
      else if 97 \<le> n \<and> n \<le> 102 then Some (n - 87)
      else if 65 \<le> n \<and> n \<le> 70 then Some (n - 55)
      else None)"

text \<open>\<^verbatim>\<open>_hex_nibble\<close>: \<open>None\<close> for the wildcard, the digit's value, or \<^verbatim>\<open>ValueError\<close>.\<close>

definition hex_nibble :: "char \<Rightarrow> error + nat option" where
  "hex_nibble ch =
     (if ch = CHR ''?'' then Inr None
      else (case hex_digit ch of
              Some v \<Rightarrow> Inr (Some v)
            | None \<Rightarrow> Inl (ValueError ''bad nibble'')))"

text \<open>\<^verbatim>\<open>_parse_token\<close>: the pair (value, mask) of one two-character token.\<close>

definition parse_token :: "string \<Rightarrow> error + (byte \<times> byte)" where
  "parse_token tok0 =
     (case py_strip tok0 of
        [c1, c2] \<Rightarrow>
          (case hex_nibble c1 of
             Inl e \<Rightarrow> Inl e
           | Inr hi \<Rightarrow>
               (case hex_nibble c2 of
                  Inl e \<Rightarrow> Inl e
                | Inr lo \<Rightarrow>
                    (case hi of
                       None \<Rightarrow>
                         (case lo of
                            None \<Rightarrow> Inr (0x00, 0x00)
                          | Some l \<Rightarrow> Inr (0 OR of_nat l, 0 OR 0x0F))
                     | Some h \<Rightarrow>
                         (let val = 0 OR push_bit 4 (of_nat h); msk = 0 OR 0xF0 in
                          case lo of
                            None \<Rightarrow> Inr (val, msk)
                          | Some l \<Rightarrow> Inr (val OR of_nat l, msk OR 0x0F)))))
      | _ \<Rightarrow> Inl (ValueError ''token must be 2 chars''))"

text \<open>
  \<^verbatim>\<open>aob_to_pat_mask\<close>: tabs become spaces, the text is split at single spaces, empty
  pieces are dropped, and the tokens are parsed in order; the first bad token raises.
\<close>

fun parse_tokens :: "string list \<Rightarrow> error + (byte list \<times> byte list)" where
  "parse_tokens [] = Inr ([], [])"
| "parse_tokens (t # ts) =
     (case parse_token t of
        Inl e \<Rightarrow> Inl e
      | Inr (v, m) \<Rightarrow>
          (case parse_tokens ts of
             Inl e \<Rightarrow> Inl e
           | Inr (pat, msk) \<Rightarrow> Inr (v # pat, m # msk)))"

definition aob_tokens :: "string \<Rightarrow> string list" where
  "aob_tokens aob =
     filter (\<lambda>t. t \<noteq> []) (split_on CHR '' '' (map (\<lambda>c. if c = CHR 0x09 then CHR '' '' else c) aob))"

definition aob_to_pat_mask :: "string \<Rightarrow> error + (byte list \<times> byte list)" where
  "aob_to_pat_mask aob = parse_tokens (aob_tokens aob)"

text \<open>
  \<^verbatim>\<open>scan\<close>: the inner loop over \<^verbatim>\<open>zip(w, pat, msk)\<close> stops at the shortest of the three
  and fails at the first position whose mask is non-zero and whose masked bytes differ.
\<close>

fun window_ok :: "byte list \<Rightarrow> byte list \<Rightarrow> byte list \<Rightarrow> bool" where
  "window_ok (a # w) (b # pat) (m # msk) =
     (if m \<noteq> 0 \<and> (a AND m) \<noteq> (b AND m) then False else window_ok w pat msk)"
| "window_ok _ _ _ = True"

fun scan_loop :: "byte list \<Rightarrow> byte list \<Rightarrow> byte list \<Rightarrow> nat list \<Rightarrow> int" where
  "scan_loop buf pat msk [] = -1"
| "scan_loop buf pat msk (i # is) =
     (if window_ok (py_slice buf (int i) (int i + int (length pat))) pat msk then int i
      else scan_loop buf pat msk is)"

text \<open>\<^verbatim>\<open>range(0, k)\<close> for an integer \<open>k\<close>, empty when \<open>k \<le> 0\<close>.\<close>

definition py_range0 :: "int \<Rightarrow> nat list" where
  "py_range0 k = [0..<nat k]"

definition scan :: "byte list \<Rightarrow> byte list \<Rightarrow> byte list \<Rightarrow> int" where
  "scan buf pat msk =
     scan_loop buf pat msk (py_range0 (int (length buf) - int (length pat) + 1))"


section \<open>The cave search and the trampolines of make_inline.py\<close>

definition CODE_BASE :: int where
  "CODE_BASE = 0x00100000"

definition STOLEN_SIZE :: int where
  "STOLEN_SIZE = 8"

definition per_tramp :: int where
  "per_tramp = 0x60"

definition is_filler :: "byte \<Rightarrow> bool" where
  "is_filler b = (b = 0x00 \<or> b = 0xFF)"

text \<open>
  \<^verbatim>\<open>find_code_cave\<close>: the index runs over \<^verbatim>\<open>range(len(buf) - 1, -1, -1)\<close>; \<open>run\<close> counts
  the filler bytes seen since the last other byte.
\<close>

fun cave_loop :: "byte list \<Rightarrow> int \<Rightarrow> nat list \<Rightarrow> int \<Rightarrow> int" where
  "cave_loop buf need [] run = -1"
| "cave_loop buf need (i # is) run =
     (if is_filler (buf ! i)
      then (if run + 1 \<ge> need then int i else cave_loop buf need is (run + 1))
      else cave_loop buf need is 0)"

definition find_code_cave :: "byte list \<Rightarrow> int \<Rightarrow> int" where
  "find_code_cave buf need = cave_loop buf need (rev [0..<length buf]) 0"

text \<open>
  The assembler (Keystone) is outside the repository: it is a parameter, a function from
  the jump target and the origin address to the encoding, \<open>None\<close> when it raises
  (a returned \<^verbatim>\<open>None\<close> encoding is the empty list, as \<^verbatim>\<open>enc or []\<close> makes it).
  \<^verbatim>\<open>asm_abs_jump_va\<close> accepts only an encoding of 8 bytes.
\<close>

type_synonym assembler = "int \<Rightarrow> int \<Rightarrow> byte list option"

definition asm_abs_jump_va :: "assembler \<Rightarrow> int \<Rightarrow> int \<Rightarrow> error + byte list" where
  "asm_abs_jump_va ks to_va origin_off =
     (let origin_va = CODE_BASE + origin_off in
      case ks to_va origin_va of
        None \<Rightarrow> Inl KeystoneError
      | Some b \<Rightarrow>
          if length b \<noteq> 8 then Inl (SystemExit ''detour assembled to a size other than 8'')
          else Inr b)"

text \<open>
  A hook of the address map. \<open>Addr n\<close> is an address value whose \<^verbatim>\<open>int(str(addr), 0)\<close>
  is \<open>n\<close>, \<open>BadAddr\<close> one for which that conversion raises, \<open>NoAddr\<close> is \<^verbatim>\<open>None\<close>.
  The field \<^verbatim>\<open>addr\<close> is one value or a list of them. A missing \<^verbatim>\<open>aob\<close> or \<^verbatim>\<open>guard\<close> is \<open>None\<close>;
  \<open>truthy\<close> is Python's truth value of such a field.
\<close>

datatype target = NoAddr | Addr int | BadAddr

datatype addr_field = Single target | Multi "target list"

record hookspec =
  spec_addr :: addr_field
  spec_aob :: "string option"
  spec_guard :: "string option"

definition truthy :: "string option \<Rightarrow> bool" where
  "truthy s = (case s of None \<Rightarrow> False | Some t \<Rightarrow> t \<noteq> [])"

record row =
  name :: string
  site_off :: int
  tramp_off :: int
  guard :: "byte list"
  guard_len :: nat

record inline_state =
  i_mod :: "byte list"
  i_cur :: int
  i_rows :: "row list"
  i_hook_ids :: "string list"

text \<open>The count of hook sites, lines 200 to 209 of \<^verbatim>\<open>main\<close>.\<close>

definition count_sites :: "hookspec \<Rightarrow> int" where
  "count_sites spec =
     (case spec_addr spec of
        Multi addrs \<Rightarrow> int (length addrs)
      | Single NoAddr \<Rightarrow> (if truthy (spec_aob spec) then 1 else 0)
      | Single _ \<Rightarrow> 1)"

definition num_sites :: "(string \<times> hookspec) list \<Rightarrow> int" where
  "num_sites hooks = fold (\<lambda>(n, spec) k. k + count_sites spec) hooks 0"

definition arena_need :: "(string \<times> hookspec) list \<Rightarrow> int" where
  "arena_need hooks = per_tramp * max 1 (num_sites hooks)"

text \<open>
  Lines 211 to 216: the cave is searched in the mutable copy; when none is found the
  copy grows by \<open>arena_need\<close> zero bytes. The result is \<open>(arena_off, mod)\<close>.
\<close>

definition inline_arena :: "byte list \<Rightarrow> (string \<times> hookspec) list \<Rightarrow> int \<times> byte list" where
  "inline_arena buf hooks =
     (let modb = buf;
          arena_off = find_code_cave modb (arena_need hooks)
      in if arena_off < 0
         then (int (length modb), modb @ replicate (nat (arena_need hooks)) 0x00)
         else (arena_off, modb))"

text \<open>Lines 240 to 249: the site of one target, \<open>None\<close> when there is none.\<close>

definition resolve_site :: "byte list \<Rightarrow> target \<Rightarrow> string option \<Rightarrow> error + int option" where
  "resolve_site buf addr aob =
     (case addr of
        Addr n \<Rightarrow> Inr (Some n)
      | BadAddr \<Rightarrow> Inr None
      | NoAddr \<Rightarrow>
          (case aob of
             None \<Rightarrow> Inr None
           | Some a \<Rightarrow>
               if a = [] then Inr None
               else (case aob_to_pat_mask a of
                       Inl e \<Rightarrow> Inl e
                     | Inr (pat, msk) \<Rightarrow> Inr (Some (scan buf pat msk)))))"

text \<open>Lines 255 to 261: the guard's length and the bytes of the original image there.\<close>

definition guard_snapshot :: "byte list \<Rightarrow> string option \<Rightarrow> int \<Rightarrow> error + (nat \<times> byte list)" where
  "guard_snapshot buf g site =
     (case g of
        None \<Rightarrow> Inr (0, [])
      | Some gs \<Rightarrow>
          if gs = [] then Inr (0, [])
          else (case aob_to_pat_mask gs of
                  Inl e \<Rightarrow> Inl e
                | Inr (gpat, gmsk) \<Rightarrow>
                    Inr (length gpat, py_slice buf site (site + int (length gpat)))))"

text \<open>Lines 263 to 276: the stolen bytes, the trampoline and its place in the cave.\<close>

definition steal :: "byte list \<Rightarrow> int \<Rightarrow> byte list" where
  "steal modb site = py_slice modb site (site + STOLEN_SIZE)"

definition build_tramp :: "assembler \<Rightarrow> byte list \<Rightarrow> int \<Rightarrow> int \<Rightarrow> error + byte list" where
  "build_tramp ks modb site toff =
     (let stolen = steal modb site;
          resume_off = site + STOLEN_SIZE;
          resume_va = CODE_BASE + resume_off
      in case asm_abs_jump_va ks resume_va (toff + int (length stolen)) of
           Inl e \<Rightarrow> Inl e
         | Inr j \<Rightarrow> Inr (stolen @ j))"

text \<open>Lines 279 to 287: with \<^verbatim>\<open>--patch-sites\<close> the site is overwritten by the detour.\<close>

definition patch_site :: "assembler \<Rightarrow> bool \<Rightarrow> byte list \<Rightarrow> int \<Rightarrow> int \<Rightarrow> error + byte list" where
  "patch_site ks patch_sites modb site toff =
     (if patch_sites
      then (let tramp_va = CODE_BASE + toff in
            case asm_abs_jump_va ks tramp_va site of
              Inl e \<Rightarrow> Inl e
            | Inr detour \<Rightarrow>
                if int (length detour) \<noteq> STOLEN_SIZE
                then Inl (SystemExit ''detour size != STOLEN_SIZE'')
                else Inr (py_set_slice modb site (site + STOLEN_SIZE) detour))
      else Inr modb)"

text \<open>The body of the loop over the targets of one hook, lines 239 to 299.\<close>

definition inline_target ::
  "assembler \<Rightarrow> bool \<Rightarrow> byte list \<Rightarrow> string \<Rightarrow> hookspec \<Rightarrow> inline_state \<Rightarrow> target
     \<Rightarrow> error + inline_state" where
  "inline_target ks patch_sites buf nm spec st addr =
     (case resolve_site buf addr (spec_aob spec) of
        Inl e \<Rightarrow> Inl e
      | Inr None \<Rightarrow> Inr st
      | Inr (Some site) \<Rightarrow>
          if site < 0 then Inr st
          else (case guard_snapshot buf (spec_guard spec) site of
                  Inl e \<Rightarrow> Inl e
                | Inr (glen, gbytes) \<Rightarrow>
                    (let toff = i_cur st in
                     case build_tramp ks (i_mod st) site toff of
                       Inl e \<Rightarrow> Inl e
                     | Inr tramp \<Rightarrow>
                         (let end_tramp = toff + int (length tramp);
                              mod1 = py_set_slice (i_mod st) toff end_tramp tramp
                          in case patch_site ks patch_sites mod1 site toff of
                               Inl e \<Rightarrow> Inl e
                             | Inr mod2 \<Rightarrow>
                                 Inr \<lparr>i_mod = mod2,
                                      i_cur = i_cur st + per_tramp,
                                      i_rows = i_rows st @
                                        [\<lparr>name = nm, site_off = site, tramp_off = toff,
                                          guard = gbytes, guard_len = glen\<rparr>],
                                      i_hook_ids = i_hook_ids st @ [nm]\<rparr>))))"

fun inline_targets ::
  "assembler \<Rightarrow> bool \<Rightarrow> byte list \<Rightarrow> string \<Rightarrow> hookspec \<Rightarrow> inline_state \<Rightarrow> target list
     \<Rightarrow> error + inline_state" where
  "inline_targets ks patch_sites buf nm spec st [] = Inr st"
| "inline_targets ks patch_sites buf nm spec st (t # ts) =
     (case inline_target ks patch_sites buf nm spec st t of
        Inl e \<Rightarrow> Inl e
      | Inr st' \<Rightarrow> inline_targets ks patch_sites buf nm spec st' ts)"

definition targets_of :: "hookspec \<Rightarrow> target list" where
  "targets_of spec = (case spec_addr spec of Multi addrs \<Rightarrow> addrs | Single a \<Rightarrow> [a])"

fun inline_hooks ::
  "assembler \<Rightarrow> bool \<Rightarrow> byte list \<Rightarrow> inline_state \<Rightarrow> (string \<times> hookspec) list
     \<Rightarrow> error + inline_state" where
  "inline_hooks ks patch_sites buf st [] = Inr st"
| "inline_hooks ks patch_sites buf st ((nm, spec) # hs) =
     (case inline_targets ks patch_sites buf nm spec st (targets_of spec) of
        Inl e \<Rightarrow> Inl e
      | Inr st' \<Rightarrow> inline_hooks ks patch_sites buf st' hs)"

section \<open>The hook table of make_inline.py\<close>

text \<open>
  The generated header holds the enumeration \<^verbatim>\<open>HookId\<close>, the constant \<^verbatim>\<open>kNumHooks\<close> and the
  array \<^verbatim>\<open>kHooks\<close>; the model keeps these three as data instead of their C text.
\<close>

fun unique_names :: "string list \<Rightarrow> string list \<Rightarrow> string list" where
  "unique_names acc [] = acc"
| "unique_names acc (n # ns) = unique_names (if n \<notin> set acc then acc @ [n] else acc) ns"

definition pad_guard :: "byte list \<Rightarrow> byte list" where
  "pad_guard g = fold (\<lambda>(i, b) pad. pad[i := b]) (enumerate 0 (take 8 g)) (replicate 8 0)"

record hook_entry =
  entry_name :: string
  entry_site_off :: int
  entry_tramp_off :: int
  entry_guard :: "byte list"
  entry_guard_len :: nat

record hooks_table =
  HookId :: "string list"
  kNumHooks :: nat
  kHooks :: "hook_entry list"

definition emit_header :: "row list \<Rightarrow> string list \<Rightarrow> hooks_table" where
  "emit_header rs ids =
     \<lparr>HookId = unique_names [] ids,
      kNumHooks = length rs,
      kHooks = map (\<lambda>r. \<lparr>entry_name = name r, entry_site_off = site_off r,
                          entry_tramp_off = tramp_off r, entry_guard = pad_guard (guard r),
                          entry_guard_len = guard_len r\<rparr>) rs\<rparr>"

text \<open>
  \<^verbatim>\<open>main\<close> after the SHA-1 check: the result is the error that ends the run, or the bytes
  written to the output file and the table written to the header. Nothing is written
  before the loop over the hooks has ended.
\<close>

definition inline_main ::
  "assembler \<Rightarrow> bool \<Rightarrow> byte list \<Rightarrow> (string \<times> hookspec) list
     \<Rightarrow> error + (byte list \<times> hooks_table)" where
  "inline_main ks patch_sites buf hooks =
     (let (arena_off, modb) = inline_arena buf hooks in
      case inline_hooks ks patch_sites buf
             \<lparr>i_mod = modb, i_cur = arena_off, i_rows = [], i_hook_ids = []\<rparr> hooks of
        Inl e \<Rightarrow> Inl e
      | Inr st \<Rightarrow> Inr (i_mod st, emit_header (i_rows st) (i_hook_ids st)))"


section \<open>make_bps.py\<close>

text \<open>
  \<^verbatim>\<open>int(t, 16)\<close> on an ASCII token without white space (the tokens come from \<^verbatim>\<open>split()\<close>):
  an optional sign, an optional prefix \<^verbatim>\<open>0x\<close> or \<^verbatim>\<open>0X\<close> which one underscore may follow,
  then hexadecimal digits with single underscores between them. \<open>None\<close> is \<^verbatim>\<open>ValueError\<close>.
\<close>

fun hex_digits :: "char \<Rightarrow> string \<Rightarrow> int \<Rightarrow> int option" where
  "hex_digits prev [] acc = (if prev = CHR ''_'' then None else Some acc)"
| "hex_digits prev (c # cs) acc =
     (if c = CHR ''_'' then (if prev = CHR ''_'' then None else hex_digits c cs acc)
      else (case hex_digit c of
              None \<Rightarrow> None
            | Some d \<Rightarrow> hex_digits c cs (16 * acc + int d)))"

definition py_int16 :: "string \<Rightarrow> int option" where
  "py_int16 s =
     (let (sign, s1) =
            (case s of
               [] \<Rightarrow> (1, s)
             | c # r \<Rightarrow> if c = CHR ''+'' then (1, r) else if c = CHR ''-'' then (- 1, r) else (1, s));
          s2 =
            (case s1 of
               z # x # r \<Rightarrow>
                 if z = CHR ''0'' \<and> (x = CHR ''x'' \<or> x = CHR ''X'')
                 then (case r of [] \<Rightarrow> r | u # r' \<Rightarrow> if u = CHR ''_'' then r' else r)
                 else s1
             | _ \<Rightarrow> s1)
      in case s2 of
           [] \<Rightarrow> None
         | c # _ \<Rightarrow>
             if c = CHR ''_'' then None
             else map_option (\<lambda>v. sign * v) (hex_digits CHR ''0'' s2 0))"

text \<open>
  One token of \<^verbatim>\<open>aob_to_bytes_mask\<close>: \<^verbatim>\<open>??\<close> is the wildcard; any other token goes through
  \<^verbatim>\<open>int(t, 16)\<close> and \<^verbatim>\<open>bytearray.append\<close>, which both raise \<^verbatim>\<open>ValueError\<close>.
\<close>

definition bytes_mask_token :: "string \<Rightarrow> error + (byte \<times> byte)" where
  "bytes_mask_token t =
     (if t = ''??'' then Inr (0x00, 0x00)
      else (case py_int16 t of
              None \<Rightarrow> Inl (ValueError ''invalid literal for int() with base 16'')
            | Some v \<Rightarrow>
                if 0 \<le> v \<and> v < 256 then Inr (word_of_int v, 0xFF)
                else Inl (ValueError ''byte must be in range(0, 256)'')))"

fun bytes_mask_tokens :: "string list \<Rightarrow> error + (byte list \<times> byte list)" where
  "bytes_mask_tokens [] = Inr ([], [])"
| "bytes_mask_tokens (t # ts) =
     (case bytes_mask_token t of
        Inl e \<Rightarrow> Inl e
      | Inr (v, m) \<Rightarrow>
          (case bytes_mask_tokens ts of
             Inl e \<Rightarrow> Inl e
           | Inr (pat, msk) \<Rightarrow> Inr (v # pat, m # msk)))"

definition aob_to_bytes_mask :: "string \<Rightarrow> error + (byte list \<times> byte list)" where
  "aob_to_bytes_mask aob = bytes_mask_tokens (py_split_ws [] aob)"

text \<open>\<^verbatim>\<open>scan_aob\<close>, and the same comparison loop of the guard check in \<^verbatim>\<open>main\<close>.\<close>

fun window_eq :: "byte list \<Rightarrow> byte list \<Rightarrow> byte list \<Rightarrow> bool" where
  "window_eq (a # w) (b # pat) (m # msk) =
     (if m \<noteq> 0 \<and> a \<noteq> b then False else window_eq w pat msk)"
| "window_eq _ _ _ = True"

fun scan_aob_loop :: "byte list \<Rightarrow> byte list \<Rightarrow> byte list \<Rightarrow> nat list \<Rightarrow> int" where
  "scan_aob_loop buf pat msk [] = -1"
| "scan_aob_loop buf pat msk (i # is) =
     (if window_eq (py_slice buf (int i) (int i + int (length pat))) pat msk then int i
      else scan_aob_loop buf pat msk is)"

definition scan_aob :: "byte list \<Rightarrow> byte list \<Rightarrow> byte list \<Rightarrow> int" where
  "scan_aob buf pat msk =
     scan_aob_loop buf pat msk (py_range0 (int (length buf) - int (length pat) + 1))"

text \<open>
  \<^verbatim>\<open>find_code_cave\<close> of make_bps.py with \<^verbatim>\<open>prefer_from=None\<close>: the windows of \<open>need\<close> bytes
  are tried from \<^verbatim>\<open>len(buf) - need\<close> down to 0.
\<close>

fun cave_try :: "byte list \<Rightarrow> int \<Rightarrow> nat list \<Rightarrow> int" where
  "cave_try buf need [] = -1"
| "cave_try buf need (i # is) =
     (if list_all is_filler (py_slice buf (int i) (int i + need)) then int i
      else cave_try buf need is)"

definition find_code_cave_bps :: "byte list \<Rightarrow> int \<Rightarrow> int" where
  "find_code_cave_bps buf need =
     (let start = int (length buf) - need in cave_try buf need (rev (py_range0 (start + 1))))"

definition arena_need_each :: int where
  "arena_need_each = 0x40"

definition arena_total :: "(string \<times> hookspec) list \<Rightarrow> int" where
  "arena_total hooks = arena_need_each * max 1 (int (length hooks))"

text \<open>Lines 163 to 168: the cave, or the end of the run.\<close>

definition bps_arena :: "byte list \<Rightarrow> (string \<times> hookspec) list \<Rightarrow> error + int" where
  "bps_arena modb hooks =
     (let arena_off = find_code_cave_bps modb (arena_total hooks) in
      if arena_off < 0 then Inl (SystemExit ''No suitable code cave found for trampolines.'')
      else Inr arena_off)"

definition NOP16 :: "byte list" where
  "NOP16 = [0x00, 0xBF]"

record hook_record =
  rec_name :: string
  rec_site_off :: int
  rec_tramp_off :: int
  rec_resume_off :: int
  rec_stolen_len :: nat

record bps_state =
  b_mod :: "byte list"
  b_arena_cur :: int
  b_hook_records :: "hook_record list"

text \<open>
  Lines 178 to 189: the site of a hook, \<open>None\<close> when the hook is skipped. An address that
  is a list or cannot be converted makes \<^verbatim>\<open>int(str(addr), 0)\<close> raise.
\<close>

definition bps_site :: "byte list \<Rightarrow> hookspec \<Rightarrow> error + int option" where
  "bps_site buf spec =
     (case spec_addr spec of
        Multi addrs \<Rightarrow> Inl (ValueError ''invalid literal for int() with base 0'')
      | Single BadAddr \<Rightarrow> Inl (ValueError ''invalid literal for int() with base 0'')
      | Single (Addr n) \<Rightarrow> Inr (Some n)
      | Single NoAddr \<Rightarrow>
          (case spec_aob spec of
             None \<Rightarrow> Inr None
           | Some a \<Rightarrow>
               if a = [] then Inr None
               else (case aob_to_bytes_mask a of
                       Inl e \<Rightarrow> Inl e
                     | Inr (pat, msk) \<Rightarrow>
                         (let s = scan_aob buf pat msk in
                          if s < 0 then Inr None else Inr (Some s)))))"

text \<open>Lines 191 to 200: the guard check on the base image.\<close>

definition bps_guard_ok :: "byte list \<Rightarrow> string option \<Rightarrow> int \<Rightarrow> error + bool" where
  "bps_guard_ok buf g soff =
     (case g of
        None \<Rightarrow> Inr True
      | Some gs \<Rightarrow>
          if gs = [] then Inr True
          else (case aob_to_bytes_mask gs of
                  Inl e \<Rightarrow> Inl e
                | Inr (gpat, gmsk) \<Rightarrow>
                    Inr (window_eq (py_slice buf soff (soff + int (length gpat))) gpat gmsk)))"

text \<open>
  Lines 202 to 226: the stolen bytes, padded with Thumb NOPs to a multiple of four, and the
  branch back. The assembler of the branch takes the displacement and the origin; any
  exception there ends the run.
\<close>

definition bps_steal :: "byte list \<Rightarrow> int \<Rightarrow> byte list" where
  "bps_steal modb soff = py_slice modb soff (soff + 10)"

definition bps_tramp :: "assembler \<Rightarrow> byte list \<Rightarrow> int \<Rightarrow> int \<Rightarrow> error + byte list" where
  "bps_tramp ks_branch modb soff toff =
     (let stolen = bps_steal modb soff;
          resume = soff + 10;
          tramp1 = (if int (length stolen) AND 1 \<noteq> 0 then stolen @ NOP16 else stolen);
          tramp2 = (if int (length tramp1) AND 3 \<noteq> 0 then tramp1 @ NOP16 else tramp1);
          delta = resume - (toff + int (length tramp2) + 4)
      in case ks_branch delta (toff OR 1) of
           None \<Rightarrow> Inl (SystemExit ''Keystone needed for trampoline branch'')
         | Some enc \<Rightarrow> Inr (tramp2 @ enc))"

text \<open>\<^verbatim>\<open>assemble_detour\<close>: the 10-byte detour, from the assembler of its template.\<close>

definition assemble_detour :: "assembler \<Rightarrow> int \<Rightarrow> int \<Rightarrow> error + byte list" where
  "assemble_detour ks_detour lo16 hi16 =
     (case ks_detour lo16 hi16 of
        None \<Rightarrow> Inl KeystoneError
      | Some b \<Rightarrow>
          if length b \<noteq> 10 then Inl (SystemExit ''Detour assembled to a size other than 10'')
          else Inr b)"

text \<open>The body of the loop over the hooks, lines 173 to 245.\<close>

definition bps_hook ::
  "assembler \<Rightarrow> assembler \<Rightarrow> byte list \<Rightarrow> bps_state \<Rightarrow> string \<times> hookspec \<Rightarrow> error + bps_state" where
  "bps_hook ks_branch ks_detour buf st h =
     (case bps_site buf (snd h) of
        Inl e \<Rightarrow> Inl e
      | Inr None \<Rightarrow> Inr st
      | Inr (Some site) \<Rightarrow>
          (case bps_guard_ok buf (spec_guard (snd h)) site of
             Inl e \<Rightarrow> Inl e
           | Inr ok \<Rightarrow>
               if \<not> ok then Inr st
               else (let toff = b_arena_cur st in
                     case bps_tramp ks_branch (b_mod st) site toff of
                       Inl e \<Rightarrow> Inl e
                     | Inr tramp \<Rightarrow>
                         (let mod1 = py_set_slice (b_mod st) toff (toff + int (length tramp)) tramp in
                          case assemble_detour ks_detour 0 0 of
                            Inl e \<Rightarrow> Inl e
                          | Inr detour \<Rightarrow>
                              Inr \<lparr>b_mod = py_set_slice mod1 site (site + 10) detour,
                                   b_arena_cur = toff + arena_need_each,
                                   b_hook_records = b_hook_records st @
                                     [\<lparr>rec_name = fst h, rec_site_off = site,
                                       rec_tramp_off = toff, rec_resume_off = site + 10,
                                       rec_stolen_len = 10\<rparr>]\<rparr>))))"

fun bps_hooks ::
  "assembler \<Rightarrow> assembler \<Rightarrow> byte list \<Rightarrow> bps_state \<Rightarrow> (string \<times> hookspec) list
     \<Rightarrow> error + bps_state" where
  "bps_hooks ks_branch ks_detour buf st [] = Inr st"
| "bps_hooks ks_branch ks_detour buf st (h # hs) =
     (case bps_hook ks_branch ks_detour buf st h of
        Inl e \<Rightarrow> Inl e
      | Inr st' \<Rightarrow> bps_hooks ks_branch ks_detour buf st' hs)"

text \<open>
  The files the run writes, and the diff engine (FLIPS), which is outside the repository:
  \<open>flips_create base target\<close> is the patch it writes, \<open>flips_apply base patch\<close> the image
  it reconstructs, \<open>None\<close> when the tool is missing or returns a non-zero code.
\<close>

datatype out_file = Build_code_mod | Patch_code_bps | Build_code_mod_verify | Dist_code_bps

type_synonym files = "out_file \<Rightarrow> byte list option"

type_synonym diff_tool = "byte list \<Rightarrow> byte list \<Rightarrow> byte list option"

text \<open>Lines 247 to 265: the outputs, in the order in which they are written.\<close>

definition bps_outputs ::
  "diff_tool \<Rightarrow> diff_tool \<Rightarrow> byte list \<Rightarrow> byte list \<Rightarrow> files \<Rightarrow> files \<times> error option" where
  "bps_outputs flips_create flips_apply base modb fs =
     (let fs1 = fs(Build_code_mod \<mapsto> modb) in
      case flips_create base modb of
        None \<Rightarrow> (fs1, Some (SystemExit ''FLIPS failed to create BPS.''))
      | Some bps \<Rightarrow>
          (let fs2 = fs1(Patch_code_bps \<mapsto> bps) in
           case flips_apply base bps of
             None \<Rightarrow> (fs2, Some (SystemExit ''FLIPS failed to apply BPS.''))
           | Some verify \<Rightarrow>
               (let fs3 = fs2(Build_code_mod_verify \<mapsto> verify) in
                if verify \<noteq> modb then (fs3, Some (SystemExit ''BPS roundtrip mismatch!''))
                else (fs3(Dist_code_bps \<mapsto> bps), None))))"

text \<open>\<^verbatim>\<open>main\<close> of make_bps.py after the SHA-1 check.\<close>

definition bps_main ::
  "assembler \<Rightarrow> assembler \<Rightarrow> diff_tool \<Rightarrow> diff_tool \<Rightarrow> byte list \<Rightarrow> (string \<times> hookspec) list
     \<Rightarrow> files \<Rightarrow> files \<times> error option" where
  "bps_main ks_branch ks_detour flips_create flips_apply buf hooks fs =
     (case bps_arena buf hooks of
        Inl e \<Rightarrow> (fs, Some e)
      | Inr arena_off \<Rightarrow>
          (case bps_hooks ks_branch ks_detour buf
                  \<lparr>b_mod = buf, b_arena_cur = arena_off, b_hook_records = []\<rparr> hooks of
             Inl e \<Rightarrow> (fs, Some e)
           | Inr st \<Rightarrow> bps_outputs flips_create flips_apply buf (b_mod st) fs))"

section \<open>Definitions used to state the properties\<close>

text \<open>A list without its repetitions, each element at the place where it is first seen.\<close>

fun first_seen :: "'a list \<Rightarrow> 'a list" where
  "first_seen [] = []"
| "first_seen (x # xs) = x # filter (\<lambda>y. y \<noteq> x) (first_seen xs)"

text \<open>
  What make_inline.py accepts, read off the original image alone: the site, the guard's
  length and the guard bytes of a target (\<open>resolve_site\<close>, the test \<open>site < 0\<close>, then
  \<open>guard_snapshot\<close>), the accepted targets of a hook and of the whole address map, in
  order, and the rows that hold them when the slots start at \<open>c\<close>.
\<close>

definition accepted_site :: "byte list \<Rightarrow> hookspec \<Rightarrow> target \<Rightarrow> (int \<times> nat \<times> byte list) option" where
  "accepted_site buf spec t =
     (case resolve_site buf t (spec_aob spec) of
        Inr (Some s) \<Rightarrow>
          if s < 0 then None
          else (case guard_snapshot buf (spec_guard spec) s of
                  Inr (gl, gb) \<Rightarrow> Some (s, gl, gb)
                | Inl e \<Rightarrow> None)
      | _ \<Rightarrow> None)"

definition accepted_of_hook ::
  "byte list \<Rightarrow> string \<times> hookspec \<Rightarrow> (string \<times> int \<times> nat \<times> byte list) list" where
  "accepted_of_hook buf h =
     List.map_filter (\<lambda>t. map_option (\<lambda>x. (fst h, x)) (accepted_site buf (snd h) t))
       (targets_of (snd h))"

definition accepted_sites ::
  "byte list \<Rightarrow> (string \<times> hookspec) list \<Rightarrow> (string \<times> int \<times> nat \<times> byte list) list" where
  "accepted_sites buf hooks = concat (map (accepted_of_hook buf) hooks)"

fun rows_from :: "int \<Rightarrow> (string \<times> int \<times> nat \<times> byte list) list \<Rightarrow> row list" where
  "rows_from c [] = []"
| "rows_from c ((nm, s, gl, gb) # xs) =
     \<lparr>name = nm, site_off = s, tramp_off = c, guard = gb, guard_len = gl\<rparr>
       # rows_from (c + per_tramp) xs"

text \<open>
  The resolver's contract in the specification's words: offset \<open>i\<close> matches when the
  window fits into the image and, at every position, the candidate byte and the pattern
  byte agree under the mask; \<open>r\<close> is the lowest matching offset, or \<open>-1\<close> when none
  matches. \<open>substring_search\<close> is the byte-for-byte search for the first occurrence.
\<close>

definition masked_match :: "byte list \<Rightarrow> byte list \<Rightarrow> byte list \<Rightarrow> nat \<Rightarrow> bool" where
  "masked_match buf pat msk i =
     (i + length pat \<le> length buf \<and>
      (\<forall>k<length pat. (buf ! (i + k)) AND (msk ! k) = (pat ! k) AND (msk ! k)))"

definition lowest_match :: "byte list \<Rightarrow> byte list \<Rightarrow> byte list \<Rightarrow> int \<Rightarrow> bool" where
  "lowest_match buf pat msk r =
     ((r = -1 \<and> (\<forall>i. \<not> masked_match buf pat msk i)) \<or>
      (\<exists>i. r = int i \<and> masked_match buf pat msk i \<and> (\<forall>j<i. \<not> masked_match buf pat msk j)))"

definition substring_search :: "byte list \<Rightarrow> byte list \<Rightarrow> int" where
  "substring_search buf pat =
     (case find (\<lambda>i. take (length pat) (drop i buf) = pat) [0..<Suc (length buf) - length pat] of
        None \<Rightarrow> -1
      | Some i \<Rightarrow> int i)"

text \<open>
  The cave allocator's contract in the specification's words: a run of \<open>n\<close> filler bytes
  starts at \<open>i\<close>; \<open>r\<close> is the start of the run of \<open>n\<close> filler bytes closest to the end of
  the image, or \<open>-1\<close> when the image has no such run.
\<close>

definition filler_window :: "byte list \<Rightarrow> nat \<Rightarrow> nat \<Rightarrow> bool" where
  "filler_window buf i n = (i + n \<le> length buf \<and> (\<forall>k<n. is_filler (buf ! (i + k))))"

definition end_most_cave :: "byte list \<Rightarrow> nat \<Rightarrow> int \<Rightarrow> bool" where
  "end_most_cave buf n r =
     ((r = -1 \<and> (\<forall>i. \<not> filler_window buf i n)) \<or>
      (\<exists>i. r = int i \<and> filler_window buf i n \<and> (\<forall>j>i. \<not> filler_window buf j n)))"

text \<open>
  An assembler for the concrete runs below: the ARM encoding of
  \<^verbatim>\<open>ldr pc, [pc, #-4]\<close> followed by the target as a little-endian word.
\<close>

definition ks_arm :: assembler where
  "ks_arm to_va origin_va =
     Some ([0x04, 0xF0, 0x1F, 0xE5] @ map (\<lambda>k. word_of_int (to_va div 256 ^ k)) [0, 1, 2, 3])"

definition hook_same_site_twice :: "(string \<times> hookspec) list" where
  "hook_same_site_twice =
     [(''h'', \<lparr>spec_addr = Multi [Addr 0, Addr 0], spec_aob = None, spec_guard = None\<rparr>)]"

text \<open>
  Stand-ins for the Thumb assembler and for the diff engine in the concrete runs of
  make_bps.py: a fixed 4-byte branch, the 10-byte encoding of
  \<^verbatim>\<open>movw r12, #0; movt r12, #0; bx r12\<close>, a diff engine whose patch carries the whole
  target, the matching reconstruction, and a reconstruction that loses the target.
\<close>

definition ks_branch_stub :: assembler where
  "ks_branch_stub delta origin = Some [0x00, 0xF0, 0x00, 0xB8]"

definition ks_detour_zero :: assembler where
  "ks_detour_zero lo16 hi16 =
     (if lo16 = 0 \<and> hi16 = 0
      then Some [0x40, 0xF2, 0x00, 0x0C, 0xC0, 0xF2, 0x00, 0x0C, 0x60, 0x47]
      else None)"

definition flips_whole :: diff_tool where
  "flips_whole base target = Some target"

definition flips_apply_whole :: diff_tool where
  "flips_apply_whole base patch = Some patch"

definition flips_apply_broken :: diff_tool where
  "flips_apply_broken base patch = Some []"

definition no_files :: files where
  "no_files = (\<lambda>f. None)"

text \<open>An image of two code bytes followed by a cave of 64 filler bytes, and a hook given by its pattern alone.\<close>

definition cave_image :: "byte list" where
  "cave_image = [0x01, 0x02] @ replicate 0x40 0xFF"

definition aob_hook :: "string \<Rightarrow> hookspec" where
  "aob_hook a = \<lparr>spec_addr = Single NoAddr, spec_aob = Some a, spec_guard = None\<rparr>"

text \<open>
  What make_bps.py accepts, read off the original image alone: the site of a hook
  (\<open>bps_site\<close>, then the guard check \<open>bps_guard_ok\<close>), the accepted hooks of the address
  map in order, and the records that hold them when the slots start at \<open>c\<close>.
\<close>

definition accepted_bps :: "byte list \<Rightarrow> hookspec \<Rightarrow> int option" where
  "accepted_bps buf spec =
     (case bps_site buf spec of
        Inr (Some s) \<Rightarrow>
          (case bps_guard_ok buf (spec_guard spec) s of
             Inr ok \<Rightarrow> if ok then Some s else None
           | Inl e \<Rightarrow> None)
      | _ \<Rightarrow> None)"

definition accepted_bps_sites :: "byte list \<Rightarrow> (string \<times> hookspec) list \<Rightarrow> (string \<times> int) list" where
  "accepted_bps_sites buf hooks =
     List.map_filter (\<lambda>h. map_option (\<lambda>s. (fst h, s)) (accepted_bps buf (snd h))) hooks"

fun records_from :: "int \<Rightarrow> (string \<times> int) list \<Rightarrow> hook_record list" where
  "records_from c [] = []"
| "records_from c ((nm, s) # xs) =
     \<lparr>rec_name = nm, rec_site_off = s, rec_tramp_off = c, rec_resume_off = s + 10,
      rec_stolen_len = 10\<rparr> # records_from (c + arena_need_each) xs"

text \<open>
  A target whose processing raises in make_inline.py before any assembling: its pattern
  or its guard does not parse. \<open>map_raises\<close> says that the address map has such a target.
\<close>

definition target_raises :: "byte list \<Rightarrow> hookspec \<Rightarrow> target \<Rightarrow> bool" where
  "target_raises buf spec t =
     (case resolve_site buf t (spec_aob spec) of
        Inl e \<Rightarrow> True
      | Inr None \<Rightarrow> False
      | Inr (Some s) \<Rightarrow>
          if s < 0 then False else isl (guard_snapshot buf (spec_guard spec) s))"

definition map_raises :: "byte list \<Rightarrow> (string \<times> hookspec) list \<Rightarrow> bool" where
  "map_raises buf hooks =
     list_ex (\<lambda>h. list_ex (target_raises buf (snd h)) (targets_of (snd h))) hooks"

text \<open>An assembler that never raises and always returns \<open>n\<close> bytes.\<close>

definition assembles :: "assembler \<Rightarrow> nat \<Rightarrow> bool" where
  "assembles ks n = (\<forall>x y. \<exists>b. ks x y = Some b \<and> length b = n)"

definition guarded_spec :: hookspec where
  "guarded_spec = \<lparr>spec_addr = Single (Addr 0), spec_aob = None, spec_guard = Some ''FF''\<rparr>"

definition guarded_hook :: "(string \<times> hookspec) list" where
  "guarded_hook = [(''g'', guarded_spec)]"

definition pattern_hook :: "(string \<times> hookspec) list" where
  "pattern_hook =
     [(''p'', \<lparr>spec_addr = Single NoAddr, spec_aob = Some ''02 03'', spec_guard = Some ''02''\<rparr>)]"

definition ten_bytes :: "byte list" where
  "ten_bytes = [1, 2, 3, 4, 5, 6, 7, 8, 9, 10]"

text \<open>
  The mutated buffer still holds the original image outside the offsets of \<open>W\<close>
  (the offsets written so far), and is at least as long.
\<close>

definition agree_outside :: "byte list \<Rightarrow> byte list \<Rightarrow> nat set \<Rightarrow> bool" where
  "agree_outside buf modb W =
     (length buf \<le> length modb \<and> (\<forall>i<length buf. i \<notin> W \<longrightarrow> modb ! i = buf ! i))"

text \<open>
  The offsets that one accepted target of make_inline.py may write: the 16 bytes at the
  start of its trampoline slot and, in patch mode, the 8 bytes of its site.
\<close>

definition touched :: "bool \<Rightarrow> int \<Rightarrow> (int \<times> nat \<times> byte list) option \<Rightarrow> nat set" where
  "touched ps c acc =
     (case acc of
        None \<Rightarrow> {}
      | Some (s, gl, gb) \<Rightarrow>
          {nat c ..< nat c + 16} \<union> (if ps then {nat s ..< nat s + 8} else {}))"

definition addr0_spec :: hookspec where
  "addr0_spec = \<lparr>spec_addr = Single (Addr 0), spec_aob = None, spec_guard = None\<rparr>"

text \<open>
  The output of make_inline.py in patch mode for the ten-byte image and the hook with the
  site 0 twice: the site holds the detour to the second trampoline, the first slot (at 10)
  the trampoline of the first target, the second slot (at 106) that of the second.
\<close>

definition twice_out :: "byte list" where
  "twice_out =
     [0x04, 0xF0, 0x1F, 0xE5, 0x6A, 0x00, 0x10, 0x00, 9, 10] @
     [1, 2, 3, 4, 5, 6, 7, 8, 0x04, 0xF0, 0x1F, 0xE5, 0x08, 0x00, 0x10, 0x00] @ replicate 80 0 @
     [0x04, 0xF0, 0x1F, 0xE5, 0x0A, 0x00, 0x10, 0x00, 0x04, 0xF0, 0x1F, 0xE5, 0x08, 0x00, 0x10, 0x00] @
     replicate 80 0"

definition twice_table :: hooks_table where
  "twice_table =
     \<lparr>HookId = [''h''], kNumHooks = 2,
      kHooks = [\<lparr>entry_name = ''h'', entry_site_off = 0, entry_tramp_off = 10,
                 entry_guard = replicate 8 0, entry_guard_len = 0\<rparr>,
                \<lparr>entry_name = ''h'', entry_site_off = 0, entry_tramp_off = 106,
                 entry_guard = replicate 8 0, entry_guard_len = 0\<rparr>]\<rparr>"

text \<open>
  Mutated buffers for the concrete steps below: the buffer of make_inline.py after the
  first target of the run with the site 0 twice (detour at the site, trampoline at 10),
  and buffers that differ from the ten-byte image at the site or behind its end.
\<close>

definition after_first_hook :: "byte list" where
  "after_first_hook =
     [0x04, 0xF0, 0x1F, 0xE5, 0x0A, 0x00, 0x10, 0x00, 9, 10] @
     [1, 2, 3, 4, 5, 6, 7, 8, 0x04, 0xF0, 0x1F, 0xE5, 0x08, 0x00, 0x10, 0x00] @ replicate 176 0"

definition overwritten_site :: "byte list" where
  "overwritten_site = replicate 10 0xEE @ replicate 32 0xFF"

definition written_behind :: "byte list" where
  "written_behind = ten_bytes @ replicate 16 0xEE"

text \<open>
  The guard comparison on an image that may end inside the guard window: the bytes that
  are there agree with the pattern wherever the mask is not zero.
\<close>

definition guard_agrees :: "byte list \<Rightarrow> byte list \<Rightarrow> byte list \<Rightarrow> nat \<Rightarrow> bool" where
  "guard_agrees buf pat msk i =
     (\<forall>k<length pat. i + k < length buf \<longrightarrow> msk ! k \<noteq> 0 \<longrightarrow> buf ! (i + k) = pat ! k)"

definition tail_guard_spec :: hookspec where
  "tail_guard_spec =
     \<lparr>spec_addr = Single (Addr 9), spec_aob = None, spec_guard = Some ''0A DE AD''\<rparr>"

text \<open>An image in which the pattern \<^verbatim>\<open>12 34\<close> occurs at the offsets 3 and 5.\<close>

definition scan_image :: "byte list" where
  "scan_image = [0x01, 0x12, 0x35, 0x12, 0x34, 0x12, 0x34]"

section \<open>Patterns and the scan\<close>

lemma and_255: "(a :: byte) AND 0xFF = a"
proof -
  have "(0xFF :: byte) = - 1" by simp
  then show ?thesis by (simp only: and.right_neutral)
qed

lemma py_slice_nat: "py_slice xs (int i) (int i + int n) = take n (drop i xs)"
  by (auto simp: py_slice_def py_index_def Let_def min_def nat_add_distrib)

lemma window_ok_iff:
  "length w = length pat \<Longrightarrow> length pat = length msk \<Longrightarrow>
   window_ok w pat msk \<longleftrightarrow> (\<forall>k<length pat. (w ! k) AND (msk ! k) = (pat ! k) AND (msk ! k))"
proof (induction w pat msk rule: list_induct3)
  case Nil
  then show ?case by simp
next
  case (Cons a w b pat m msk)
  then show ?case by (auto simp: All_less_Suc2)
qed

lemma window_ok_slice:
  assumes "length msk = length pat" "i + length pat \<le> length buf"
  shows "window_ok (py_slice buf (int i) (int i + int (length pat))) pat msk \<longleftrightarrow> masked_match buf pat msk i"
proof -
  let ?w = "take (length pat) (drop i buf)"
  have lw: "length ?w = length pat" using assms by simp
  have nth: "?w ! k = buf ! (i + k)" if "k < length pat" for k
    using that assms by simp
  have "window_ok ?w pat msk \<longleftrightarrow>
        (\<forall>k<length pat. (?w ! k) AND (msk ! k) = (pat ! k) AND (msk ! k))"
    by (rule window_ok_iff [OF lw assms(1) [symmetric]])
  also have "\<dots> \<longleftrightarrow> masked_match buf pat msk i"
    using nth assms(2) unfolding masked_match_def by auto
  finally show ?thesis by (simp only: py_slice_nat)
qed

lemma scan_loop_find:
  "scan_loop buf pat msk is =
     (case find (\<lambda>i. window_ok (py_slice buf (int i) (int i + int (length pat))) pat msk) is of
        None \<Rightarrow> -1 | Some i \<Rightarrow> int i)"
  by (induction "is") simp_all

lemma find_upt_first:
  "find P [0..<k] = Some i \<Longrightarrow> i < k \<and> P i \<and> (\<forall>j<i. \<not> P j)"
  by (auto simp: find_Some_iff)

lemma find_upt_none: "find P [0..<k] = None \<Longrightarrow> \<forall>i<k. \<not> P i"
  by (auto simp: find_None_iff)

lemma scan_lowest:
  assumes len: "length msk = length pat"
  shows "lowest_match buf pat msk (scan buf pat msk)"
proof -
  define k where "k = nat (int (length buf) - int (length pat) + 1)"
  define P where "P = (\<lambda>i. window_ok (py_slice buf (int i) (int i + int (length pat))) pat msk)"
  have scan_eq: "scan buf pat msk = (case find P [0..<k] of None \<Rightarrow> - 1 | Some i \<Rightarrow> int i)"
    by (simp only: scan_def scan_loop_find py_range0_def k_def P_def)
  have in_range: "i < k \<longleftrightarrow> i + length pat \<le> length buf" for i
    unfolding k_def by linarith
  have P_iff: "P i \<longleftrightarrow> masked_match buf pat msk i" if "i < k" for i
    unfolding P_def using that in_range by (intro window_ok_slice [OF len]) simp
  have out: "\<not> masked_match buf pat msk i" if "\<not> i < k" for i
    using that in_range [of i] by (simp add: masked_match_def)
  show ?thesis
  proof (cases "find P [0..<k]")
    case None
    then have "\<forall>i<k. \<not> P i" by (rule find_upt_none)
    then have "\<not> masked_match buf pat msk i" for i
      using P_iff [of i] out [of i] by (cases "i < k") simp_all
    with None scan_eq show ?thesis by (simp add: lowest_match_def)
  next
    case (Some i)
    from find_upt_first [OF Some] have i: "i < k" "P i" "\<forall>j<i. \<not> P j" by simp_all
    have m: "masked_match buf pat msk i" using i(1,2) P_iff by simp
    have "\<not> masked_match buf pat msk j" if "j < i" for j
    proof -
      from that i(1) have "j < k" by simp
      with that i(3) P_iff [of j] show ?thesis by simp
    qed
    with m Some scan_eq show ?thesis unfolding lowest_match_def by auto
  qed
qed

lemma window_ok_full_mask:
  "length w = length pat \<Longrightarrow> window_ok w pat (replicate (length pat) 0xFF) \<longleftrightarrow> w = pat"
proof (induction w pat rule: list_induct2)
  case Nil
  then show ?case by simp
next
  case (Cons a w b pat)
  then show ?case by (simp add: and_255)
qed

lemma scan_fixed_substring:
  "scan buf pat (replicate (length pat) 0xFF) = substring_search buf pat"
proof -
  let ?k = "nat (int (length buf) - int (length pat) + 1)"
  have k: "?k = Suc (length buf) - length pat" by auto
  have "find (\<lambda>i. window_ok (py_slice buf (int i) (int i + int (length pat))) pat
                 (replicate (length pat) 0xFF)) [0..<?k]
      = find (\<lambda>i. take (length pat) (drop i buf) = pat) [0..<?k]"
  proof (rule find_cong [OF refl])
    fix i assume "i \<in> set [0..<?k]"
    then have "i + length pat \<le> length buf" by auto
    then have "length (take (length pat) (drop i buf)) = length pat" by simp
    from window_ok_full_mask [OF this]
    show "window_ok (py_slice buf (int i) (int i + int (length pat))) pat
            (replicate (length pat) 0xFF) = (take (length pat) (drop i buf) = pat)"
      by (simp only: py_slice_nat)
  qed
  then show ?thesis
    by (simp only: scan_def scan_loop_find py_range0_def substring_search_def k)
qed

lemma parse_tokens_length:
  "parse_tokens ts = Inr (pat, msk) \<Longrightarrow> length msk = length pat"
  by (induction ts arbitrary: pat msk) (auto split: sum.splits prod.splits)

lemma bytes_mask_token_mask:
  "bytes_mask_token t = Inr (v, m) \<Longrightarrow> m = 0 \<or> m = 0xFF"
  by (auto simp: bytes_mask_token_def split: if_splits option.splits)

lemma bytes_mask_tokens_masks:
  "bytes_mask_tokens ts = Inr (pat, msk) \<Longrightarrow> length msk = length pat \<and> set msk \<subseteq> {0, 0xFF}"
proof (induction ts arbitrary: pat msk)
  case Nil
  then show ?case by simp
next
  case (Cons t ts)
  then show ?case
    by (auto split: sum.splits prod.splits dest: bytes_mask_token_mask)
qed

lemma window_eq_ok:
  "set msk \<subseteq> {0, 0xFF} \<Longrightarrow> window_eq w pat msk = window_ok w pat msk"
proof (induction w pat msk rule: window_eq.induct)
  case (1 a w b pat m msk)
  then show ?case by (auto simp: and_255)
qed simp_all

lemma scan_aob_loop_eq:
  "set msk \<subseteq> {0, 0xFF} \<Longrightarrow> scan_aob_loop buf pat msk is = scan_loop buf pat msk is"
  by (induction "is") (simp_all add: window_eq_ok)

lemma scan_aob_eq_scan:
  "set msk \<subseteq> {0, 0xFF} \<Longrightarrow> scan_aob buf pat msk = scan buf pat msk"
  by (simp add: scan_aob_def scan_def scan_aob_loop_eq)

lemma inline_target_no_match:
  assumes "spec_aob spec = Some a" "a \<noteq> []" "aob_to_pat_mask a = Inr (pat, msk)"
    and "scan buf pat msk = - 1"
  shows "inline_target ks ps buf nm spec st NoAddr = Inr st"
  using assms by (simp add: inline_target_def resolve_site_def)

lemma bps_hook_no_match:
  assumes "spec_addr spec = Single NoAddr" "spec_aob spec = Some a" "a \<noteq> []"
    and "aob_to_bytes_mask a = Inr (pat, msk)" "scan_aob buf pat msk = - 1"
  shows "bps_hook kb kd buf st (nm, spec) = Inr st"
  using assms by (simp add: bps_hook_def bps_site_def)

lemma inline_hooks_skip:
  assumes "spec_addr spec = Single NoAddr"
    and "inline_target ks ps buf nm spec st NoAddr = Inr st"
  shows "inline_hooks ks ps buf st ((nm, spec) # hs) = inline_hooks ks ps buf st hs"
  using assms by (simp add: targets_of_def)

lemma bps_hooks_skip:
  assumes "bps_hook kb kd buf st h = Inr st"
  shows "bps_hooks kb kd buf st (h # hs) = bps_hooks kb kd buf st hs"
  using assms by simp

section \<open>Nibbles of a byte\<close>

lemma f0: "(0xF0 :: byte) = NOT (mask 4)" by (simp add: mask_numeral)
lemma f1: "(0x0F :: byte) = mask 4" by (simp add: mask_numeral)
lemma and_F0: "(a::byte) AND 0xF0 = push_bit 4 (drop_bit 4 a)"
  unfolding f0 by (rule bit_word_eqI) (auto simp: bit_simps)
lemma and_0F: "(a::byte) AND 0x0F = take_bit 4 a"
  unfolding f1 by (simp add: take_bit_eq_mask)
lemma drop_push_4: "drop_bit 4 (push_bit 4 (x::byte)) = take_bit 4 x"
  by (rule bit_word_eqI) (auto simp: bit_simps)
lemma take_drop_4: "take_bit 4 (drop_bit 4 (x::byte)) = drop_bit 4 x"
  by (rule bit_word_eqI) (auto simp: bit_simps dest: bit_imp_le_length)
lemma hi_mask_eq: "((a::byte) AND 0xF0 = v AND 0xF0) \<longleftrightarrow> drop_bit 4 a = drop_bit 4 v"
proof
  assume "a AND 0xF0 = v AND 0xF0"
  then have "drop_bit 4 (push_bit 4 (drop_bit 4 a)) = drop_bit 4 (push_bit 4 (drop_bit 4 v))"
    by (simp only: and_F0)
  then show "drop_bit 4 a = drop_bit 4 v"
    by (simp only: drop_push_4 take_drop_4)
next
  assume "drop_bit 4 a = drop_bit 4 v"
  then show "a AND 0xF0 = v AND 0xF0" by (simp only: and_F0)
qed
lemma unat_of_nat_byte: "n < 256 \<Longrightarrow> unat (of_nat n :: byte) = n"
  by (simp add: unat_of_nat)
lemma drop4_iff: "h < 16 \<Longrightarrow> drop_bit 4 (a::byte) = of_nat h \<longleftrightarrow> unat a div 16 = h"
  by (simp add: word_unat_eq_iff unat_drop_bit_eq drop_bit_eq_div unat_of_nat_byte unat_div)
lemma take4_iff: "l < 16 \<Longrightarrow> take_bit 4 (a::byte) = of_nat l \<longleftrightarrow> unat a mod 16 = l"
  by (simp add: word_unat_eq_iff unsigned_take_bit_eq take_bit_eq_mod unat_of_nat_byte unat_mod)
lemma drop4_push: "h < 16 \<Longrightarrow> drop_bit 4 (push_bit 4 (of_nat h :: byte)) = of_nat h"
  by (simp add: drop_push_4 word_unat_eq_iff unsigned_take_bit_eq take_bit_eq_mod unat_of_nat_byte unat_mod)
lemma or_nibbles: "(push_bit 4 (x::byte) OR take_bit 4 y) = push_bit 4 x + take_bit 4 y"
  by (rule disjunctive_add [symmetric]) (auto simp: bit_simps)
lemma take4_of_nat: "l < 16 \<Longrightarrow> take_bit 4 (of_nat l :: byte) = of_nat l"
  by (simp add: word_unat_eq_iff unsigned_take_bit_eq take_bit_eq_mod unat_of_nat_byte unat_mod)
lemma full: "h < 16 \<Longrightarrow> l < 16 \<Longrightarrow> unat (push_bit 4 (of_nat h :: byte) OR of_nat l) = 16 * h + l"
proof -
  assume h: "h < 16" and l: "l < 16"
  have "push_bit 4 (of_nat h :: byte) OR of_nat l = push_bit 4 (of_nat h) + take_bit 4 (of_nat l)"
    using or_nibbles [of "of_nat h" "of_nat l"] take4_of_nat [OF l] by simp
  also have "\<dots> = of_nat (16 * h + l)"
    using take4_of_nat [OF l] by (simp add: push_bit_eq_mult)
  finally have eq: "push_bit 4 (of_nat h :: byte) OR of_nat l = of_nat (16 * h + l)" .
  have "unat (of_nat (16 * h + l) :: byte) = 16 * h + l"
    using h l by (intro unat_of_nat_byte) simp
  with eq show ?thesis by (simp only:)
qed

section \<open>Tokens\<close>

lemma hex_digit_facts:
  assumes "hex_digit c = Some h"
  shows "h < 16" "\<not> py_isspace c" "c \<noteq> CHR ''?''" "c \<noteq> CHR ''+''" "c \<noteq> CHR ''-''"
    "c \<noteq> CHR ''_''" "c \<noteq> CHR ''x''" "c \<noteq> CHR ''X''"
  using assms by (auto simp: hex_digit_def py_isspace_def Let_def split: if_splits)

lemma qmark_facts: "\<not> py_isspace CHR ''?''" "hex_digit CHR ''?'' = None"
  by (simp_all add: py_isspace_def hex_digit_def)

lemma py_strip_two: "\<not> py_isspace c1 \<Longrightarrow> \<not> py_isspace c2 \<Longrightarrow> py_strip [c1, c2] = [c1, c2]"
  by (simp add: py_strip_def)

lemma parse_token_wild: "parse_token ''??'' = Inr (0, 0)"
  by (simp add: parse_token_def py_strip_two qmark_facts hex_nibble_def)

lemma parse_token_hi:
  assumes "hex_digit c = Some h"
  shows "parse_token [c, CHR ''?''] = Inr (push_bit 4 (of_nat h), 0xF0)"
  using assms hex_digit_facts [OF assms]
  by (simp add: parse_token_def py_strip_two qmark_facts hex_nibble_def)

lemma parse_token_lo:
  assumes "hex_digit c = Some l"
  shows "parse_token [CHR ''?'', c] = Inr (of_nat l, 0x0F)"
  using assms hex_digit_facts [OF assms]
  by (simp add: parse_token_def py_strip_two qmark_facts hex_nibble_def)

lemma parse_token_full:
  assumes "hex_digit c1 = Some h" "hex_digit c2 = Some l"
  shows "parse_token [c1, c2] = Inr (push_bit 4 (of_nat h) OR of_nat l, 0xFF)"
  using assms hex_digit_facts [OF assms(1)] hex_digit_facts [OF assms(2)]
  by (simp add: parse_token_def py_strip_two hex_nibble_def)

lemma match_hi:
  assumes "h < 16"
  shows "window_ok [a] [push_bit 4 (of_nat h)] [0xF0] \<longleftrightarrow> 16 * h \<le> unat a \<and> unat a \<le> 16 * h + 15"
proof -
  have "window_ok [a] [push_bit 4 (of_nat h)] [0xF0] \<longleftrightarrow>
        a AND 0xF0 = push_bit 4 (of_nat h) AND 0xF0"
    by simp
  also have "\<dots> \<longleftrightarrow> drop_bit 4 a = of_nat h"
    by (simp only: hi_mask_eq drop4_push [OF assms])
  also have "\<dots> \<longleftrightarrow> unat a div 16 = h"
    by (rule drop4_iff [OF assms])
  also have "\<dots> \<longleftrightarrow> 16 * h \<le> unat a \<and> unat a \<le> 16 * h + 15"
    by arith
  finally show ?thesis .
qed

lemma match_lo:
  assumes "l < 16"
  shows "window_ok [a] [of_nat l] [0x0F] \<longleftrightarrow> unat a mod 16 = l"
proof -
  have "window_ok [a] [of_nat l] [0x0F] \<longleftrightarrow> a AND 0x0F = of_nat l AND 0x0F"
    by simp
  also have "\<dots> \<longleftrightarrow> take_bit 4 a = of_nat l"
    by (simp only: and_0F take4_of_nat [OF assms])
  also have "\<dots> \<longleftrightarrow> unat a mod 16 = l"
    by (rule take4_iff [OF assms])
  finally show ?thesis .
qed

lemma match_full:
  assumes "h < 16" "l < 16"
  shows "window_ok [a] [push_bit 4 (of_nat h) OR of_nat l] [0xFF] \<longleftrightarrow> unat a = 16 * h + l"
proof -
  have "window_ok [a] [push_bit 4 (of_nat h) OR of_nat l] [0xFF] \<longleftrightarrow>
        a = push_bit 4 (of_nat h) OR of_nat l"
    by (simp add: and_255)
  also have "\<dots> \<longleftrightarrow> unat a = unat (push_bit 4 (of_nat h :: byte) OR of_nat l)"
    by (simp only: word_unat_eq_iff)
  also have "\<dots> \<longleftrightarrow> unat a = 16 * h + l"
    by (simp only: full [OF assms])
  finally show ?thesis .
qed

lemma py_int16_two:
  assumes "hex_digit c1 = Some h" "hex_digit c2 = Some l"
  shows "py_int16 [c1, c2] = Some (int (16 * h + l))"
  using assms hex_digit_facts [OF assms(1)] hex_digit_facts [OF assms(2)]
  by (simp add: py_int16_def)

lemma bytes_mask_token_wild: "bytes_mask_token ''??'' = Inr (0, 0)"
  by (simp add: bytes_mask_token_def)

lemma bytes_mask_token_hi:
  assumes "hex_digit c = Some h"
  shows "bytes_mask_token [c, CHR ''?''] = Inl (ValueError ''invalid literal for int() with base 16'')"
  using assms hex_digit_facts [OF assms]
  by (simp add: bytes_mask_token_def py_int16_def qmark_facts)

lemma bytes_mask_token_lo:
  assumes "hex_digit c = Some l"
  shows "bytes_mask_token [CHR ''?'', c] = Inl (ValueError ''invalid literal for int() with base 16'')"
  using assms hex_digit_facts [OF assms]
  by (simp add: bytes_mask_token_def py_int16_def qmark_facts)

lemma bytes_mask_token_full:
  assumes "hex_digit c1 = Some h" "hex_digit c2 = Some l"
  shows "bytes_mask_token [c1, c2] = Inr (of_nat (16 * h + l), 0xFF)"
  using py_int16_two [OF assms] hex_digit_facts [OF assms(1)] hex_digit_facts [OF assms(2)]
  by (simp add: bytes_mask_token_def)

lemma match_eq_full:
  assumes "h < 16" "l < 16"
  shows "window_eq [a] [of_nat (16 * h + l)] [0xFF] \<longleftrightarrow> unat a = 16 * h + l"
proof -
  have "unat (of_nat (16 * h + l) :: byte) = 16 * h + l"
    using assms by (intro unat_of_nat_byte) simp
  then show ?thesis by (simp add: word_unat_eq_iff del: of_nat_add of_nat_mult)
qed

section \<open>The cave search\<close>

lemma cave_loop_spec:
  assumes "0 < n"
  shows "r < n \<Longrightarrow> k + r \<le> length buf \<Longrightarrow>
         (\<forall>m<r. is_filler (buf ! (k + m))) \<Longrightarrow>
         (k + r < length buf \<longrightarrow> \<not> is_filler (buf ! (k + r))) \<Longrightarrow>
         (\<forall>j\<ge>k. \<not> filler_window buf j n) \<Longrightarrow>
         end_most_cave buf n (cave_loop buf (int n) (rev [0..<k]) (int r))"
proof (induction k arbitrary: r)
  case 0
  then show ?case by (simp add: end_most_cave_def)
next
  case (Suc k)
  show ?case
  proof (cases "is_filler (buf ! k)")
    case False
    have "\<not> filler_window buf k n"
      using False assms by (auto simp: filler_window_def)
    then have none: "\<forall>j\<ge>k. \<not> filler_window buf j n"
      using Suc.prems(5) by (metis Suc_leI le_neq_implies_less)
    have "end_most_cave buf n (cave_loop buf (int n) (rev [0..<k]) (int 0))"
      using Suc.prems(2) False assms none by (intro Suc.IH) auto
    with False show ?thesis by simp
  next
    case True
    have run: "is_filler (buf ! (k + m))" if "m < Suc r" for m
    proof (cases m)
      case 0
      with True show ?thesis by simp
    next
      case (Suc m')
      with that Suc.prems(3) show ?thesis by simp
    qed
    show ?thesis
    proof (cases "Suc r = n")
      case full: True
      have "filler_window buf k n"
        using run full Suc.prems(2) by (auto simp: filler_window_def)
      moreover have "\<forall>j>k. \<not> filler_window buf j n"
        using Suc.prems(5) by (simp add: Suc_le_eq)
      ultimately show ?thesis
        using True full by (auto simp: end_most_cave_def)
    next
      case short: False
      with Suc.prems(1) have lt: "Suc r < n" by simp
      have "\<not> filler_window buf k n"
      proof
        assume w: "filler_window buf k n"
        then have "k + Suc r < length buf" "is_filler (buf ! (k + Suc r))"
          using lt by (auto simp: filler_window_def)
        with Suc.prems(4) show False by simp
      qed
      then have none: "\<forall>j\<ge>k. \<not> filler_window buf j n"
        using Suc.prems(5) by (metis Suc_leI le_neq_implies_less)
      have "end_most_cave buf n (cave_loop buf (int n) (rev [0..<k]) (int (Suc r)))"
        using lt Suc.prems(2,4) run none by (intro Suc.IH) auto
      with True lt show ?thesis by (simp add: add.commute)
    qed
  qed
qed

lemma find_code_cave_end_most:
  assumes "0 < need"
  shows "end_most_cave buf (nat need) (find_code_cave buf need)"
proof -
  have "end_most_cave buf (nat need)
          (cave_loop buf (int (nat need)) (rev [0..<length buf]) (int 0))"
    using assms by (intro cave_loop_spec) (auto simp: filler_window_def)
  with assms show ?thesis by (simp add: find_code_cave_def)
qed

lemma list_all_window:
  "i + n \<le> length buf \<Longrightarrow> list_all is_filler (take n (drop i buf)) \<longleftrightarrow> filler_window buf i n"
  by (auto simp: list_all_length filler_window_def)

lemma cave_try_spec:
  assumes "0 < n"
  shows "k \<le> Suc (length buf) - n \<Longrightarrow> (\<forall>j\<ge>k. \<not> filler_window buf j n) \<Longrightarrow>
         end_most_cave buf n (cave_try buf (int n) (rev [0..<k]))"
proof (induction k)
  case 0
  then show ?case by (simp add: end_most_cave_def)
next
  case (Suc k)
  then have fit: "k + n \<le> length buf" using assms by simp
  show ?case
  proof (cases "filler_window buf k n")
    case True
    moreover have "\<forall>j>k. \<not> filler_window buf j n"
      using Suc.prems(2) by (simp add: Suc_le_eq)
    ultimately show ?thesis
      using list_all_window [OF fit] by (auto simp: end_most_cave_def py_slice_nat)
  next
    case False
    then have none: "\<forall>j\<ge>k. \<not> filler_window buf j n"
      using Suc.prems(2) by (metis Suc_leI le_neq_implies_less)
    have "end_most_cave buf n (cave_try buf (int n) (rev [0..<k]))"
      using fit none by (intro Suc.IH) auto
    with False list_all_window [OF fit] show ?thesis by (simp add: py_slice_nat)
  qed
qed

lemma find_code_cave_bps_end_most:
  assumes "0 < need"
  shows "end_most_cave buf (nat need) (find_code_cave_bps buf need)"
proof -
  let ?k = "nat (int (length buf) - need + 1)"
  have "end_most_cave buf (nat need) (cave_try buf (int (nat need)) (rev [0..<?k]))"
    using assms by (intro cave_try_spec) (auto simp: filler_window_def)
  with assms show ?thesis by (simp add: find_code_cave_bps_def py_range0_def Let_def)
qed


section \<open>The loop of make_inline.py\<close>

lemma unique_names_acc:
  "distinct acc \<Longrightarrow> unique_names acc ns = acc @ filter (\<lambda>n. n \<notin> set acc) (first_seen ns)"
proof (induction ns arbitrary: acc)
  case Nil
  then show ?case by simp
next
  case (Cons n ns)
  show ?case
  proof (cases "n \<in> set acc")
    case True
    then have "filter (\<lambda>m. m \<notin> set acc) (filter (\<lambda>y. y \<noteq> n) (first_seen ns))
             = filter (\<lambda>m. m \<notin> set acc) (first_seen ns)"
      by (auto simp: filter_filter intro: filter_cong)
    with True Cons show ?thesis by simp
  next
    case False
    then have d: "distinct (acc @ [n])" using Cons.prems by simp
    have "filter (\<lambda>m. m \<notin> set (acc @ [n])) (first_seen ns)
        = filter (\<lambda>m. m \<notin> set acc) (filter (\<lambda>y. y \<noteq> n) (first_seen ns))"
      by (auto simp: filter_filter intro: filter_cong)
    with False Cons.IH [OF d] show ?thesis by simp
  qed
qed

lemma unique_names_first_seen: "unique_names [] ns = first_seen ns"
  using unique_names_acc [of "[]" ns] by simp

lemma set_first_seen: "set (first_seen xs) = set xs"
  by (induction xs) auto

lemma distinct_first_seen: "distinct (first_seen xs)"
  by (induction xs) (auto simp: set_first_seen)

lemma rows_from_append:
  "rows_from c (xs @ ys) = rows_from c xs @ rows_from (c + per_tramp * int (length xs)) ys"
  by (induction c xs rule: rows_from.induct) (simp_all add: algebra_simps)

lemma length_rows_from: "length (rows_from c xs) = length xs"
  by (induction c xs rule: rows_from.induct) simp_all

lemma name_rows_from: "map name (rows_from c xs) = map fst xs"
  by (induction c xs rule: rows_from.induct) simp_all

lemma site_rows_from: "map site_off (rows_from c xs) = map (\<lambda>x. fst (snd x)) xs"
  by (induction c xs rule: rows_from.induct) simp_all

lemma guard_len_rows_from: "map guard_len (rows_from c xs) = map (\<lambda>x. fst (snd (snd x))) xs"
  by (induction c xs rule: rows_from.induct) simp_all

lemma guard_rows_from: "map guard (rows_from c xs) = map (\<lambda>x. snd (snd (snd x))) xs"
  by (induction c xs rule: rows_from.induct) simp_all

lemma cols_rows_from:
  "map (\<lambda>r. (name r, site_off r, guard_len r)) (rows_from c xs) =
     map (\<lambda>x. (fst x, fst (snd x), fst (snd (snd x)))) xs"
  by (induction c xs rule: rows_from.induct) simp_all

lemma tramp_rows_from:
  "map tramp_off (rows_from c xs) = map (\<lambda>k. c + per_tramp * int k) [0..<length xs]"
proof (induction c xs rule: rows_from.induct)
  case (1 c)
  then show ?case by simp
next
  case (2 c nm s gl gb xs)
  have "map (\<lambda>k. c + per_tramp * int k) [0..<Suc (length xs)]
      = c # map (\<lambda>k. c + per_tramp + per_tramp * int k) [0..<length xs]"
    by (simp add: upt_conv_Cons map_Suc_upt [symmetric] algebra_simps del: upt_Suc)
  with 2 show ?case by simp
qed

lemma inline_target_Inr:
  assumes "inline_target ks ps buf nm spec st t = Inr st'"
  shows "(accepted_site buf spec t = None \<and> st' = st) \<or>
         (\<exists>x. accepted_site buf spec t = Some x \<and>
              i_rows st' = i_rows st @ rows_from (i_cur st) [(nm, x)] \<and>
              i_cur st' = i_cur st + per_tramp \<and>
              i_hook_ids st' = i_hook_ids st @ [nm])"
  using assms unfolding inline_target_def accepted_site_def
  by (auto simp: Let_def split: sum.splits option.splits if_splits prod.splits)

lemma inline_targets_Inr:
  "inline_targets ks ps buf nm spec st ts = Inr st' \<Longrightarrow>
   (let acc = List.map_filter (\<lambda>t. map_option (\<lambda>x. (nm, x)) (accepted_site buf spec t)) ts in
    i_rows st' = i_rows st @ rows_from (i_cur st) acc \<and>
    i_cur st' = i_cur st + per_tramp * int (length acc) \<and>
    i_hook_ids st' = i_hook_ids st @ map fst acc)"
proof (induction ts arbitrary: st)
  case Nil
  then show ?case by (simp add: map_filter_simps)
next
  case (Cons t ts)
  from Cons.prems obtain st1 where
    s1: "inline_target ks ps buf nm spec st t = Inr st1" and
    s2: "inline_targets ks ps buf nm spec st1 ts = Inr st'"
    by (auto split: sum.splits)
  note ih = Cons.IH [OF s2, unfolded Let_def]
  from inline_target_Inr [OF s1] show ?case
  proof (elim disjE conjE exE)
    assume "accepted_site buf spec t = None" "st1 = st"
    with ih show ?thesis by (simp add: map_filter_simps Let_def)
  next
    fix x
    assume a: "accepted_site buf spec t = Some x"
      and r: "i_rows st1 = i_rows st @ rows_from (i_cur st) [(nm, x)]"
      and c: "i_cur st1 = i_cur st + per_tramp"
      and h: "i_hook_ids st1 = i_hook_ids st @ [nm]"
    obtain s gl gb where x: "x = (s, gl, gb)" by (cases x)
    from ih a r c h x show ?thesis
      by (simp add: map_filter_simps Let_def algebra_simps)
  qed
qed

lemma inline_hooks_Inr:
  "inline_hooks ks ps buf st hooks = Inr st' \<Longrightarrow>
   i_rows st' = i_rows st @ rows_from (i_cur st) (accepted_sites buf hooks) \<and>
   i_cur st' = i_cur st + per_tramp * int (length (accepted_sites buf hooks)) \<and>
   i_hook_ids st' = i_hook_ids st @ map fst (accepted_sites buf hooks)"
proof (induction hooks arbitrary: st)
  case Nil
  then show ?case by (simp add: accepted_sites_def)
next
  case (Cons h hs)
  obtain nm spec where h: "h = (nm, spec)" by (cases h)
  from Cons.prems h obtain st1 where
    s1: "inline_targets ks ps buf nm spec st (targets_of spec) = Inr st1" and
    s2: "inline_hooks ks ps buf st1 hs = Inr st'"
    by (auto split: sum.splits)
  from inline_targets_Inr [OF s1] Cons.IH [OF s2] h show ?case
    by (simp add: accepted_sites_def accepted_of_hook_def Let_def rows_from_append algebra_simps)
qed

lemma inline_main_Inr:
  assumes "inline_main ks ps buf hooks = Inr (out, tbl)"
  shows "\<exists>st. inline_hooks ks ps buf
                 \<lparr>i_mod = snd (inline_arena buf hooks), i_cur = fst (inline_arena buf hooks),
                  i_rows = [], i_hook_ids = []\<rparr> hooks = Inr st \<and>
              out = i_mod st \<and> tbl = emit_header (i_rows st) (i_hook_ids st)"
  using assms unfolding inline_main_def
  by (auto simp: Let_def split: prod.splits sum.splits)

lemma inline_main_unfold:
  assumes "inline_arena buf hooks = (off, m)"
    and "inline_hooks ks ps buf \<lparr>i_mod = m, i_cur = off, i_rows = [], i_hook_ids = []\<rparr> hooks = Inr st"
  shows "inline_main ks ps buf hooks = Inr (i_mod st, emit_header (i_rows st) (i_hook_ids st))"
  using assms by (simp add: inline_main_def)

lemma inline_main_table:
  assumes "inline_main ks ps buf hooks = Inr (out, tbl)"
  shows "tbl = emit_header (rows_from (fst (inline_arena buf hooks)) (accepted_sites buf hooks))
                 (map fst (accepted_sites buf hooks))"
proof -
  from inline_main_Inr [OF assms] obtain st where
    run: "inline_hooks ks ps buf
            \<lparr>i_mod = snd (inline_arena buf hooks), i_cur = fst (inline_arena buf hooks),
             i_rows = [], i_hook_ids = []\<rparr> hooks = Inr st"
    and tbl: "tbl = emit_header (i_rows st) (i_hook_ids st)"
    by blast
  from inline_hooks_Inr [OF run] tbl show ?thesis by simp
qed

section \<open>The arena\<close>

lemma num_sites_fold:
  "fold (\<lambda>(n, spec) k. k + count_sites spec) hooks k0 =
     k0 + sum_list (map (\<lambda>h. count_sites (snd h)) hooks)"
  by (induction hooks arbitrary: k0) (auto split: prod.splits)

lemma num_sites_sum: "num_sites hooks = sum_list (map (\<lambda>h. count_sites (snd h)) hooks)"
  by (simp add: num_sites_def num_sites_fold)

lemma count_sites_nonneg: "0 \<le> count_sites spec"
  by (auto simp: count_sites_def split: addr_field.splits target.splits)

lemma num_sites_nonneg: "0 \<le> num_sites hooks"
  unfolding num_sites_sum by (induction hooks) (simp_all add: count_sites_nonneg)

lemma arena_need_ge: "0x60 \<le> arena_need hooks"
proof -
  have "1 \<le> max 1 (num_sites hooks)" by simp
  then have "per_tramp * 1 \<le> per_tramp * max 1 (num_sites hooks)"
    by (intro mult_left_mono) (simp_all add: per_tramp_def)
  then show ?thesis by (simp add: arena_need_def per_tramp_def)
qed

lemma arena_total_ge: "0x40 \<le> arena_total hooks"
proof -
  have "1 \<le> max 1 (int (length hooks))" by simp
  then have "arena_need_each * 1 \<le> arena_need_each * max 1 (int (length hooks))"
    by (intro mult_left_mono) (simp_all add: arena_need_each_def)
  then show ?thesis by (simp add: arena_total_def arena_need_each_def)
qed

lemma no_site_targets:
  assumes "count_sites spec = 0"
  shows "inline_targets ks ps buf nm spec st (targets_of spec) = Inr st"
proof (cases "spec_addr spec")
  case (Multi addrs)
  with assms show ?thesis by (simp add: count_sites_def targets_of_def)
next
  case (Single t)
  with assms have t: "t = NoAddr" and a: "\<not> truthy (spec_aob spec)"
    by (auto simp: count_sites_def split: target.splits if_splits)
  from a have "resolve_site buf NoAddr (spec_aob spec) = Inr None"
    by (auto simp: resolve_site_def truthy_def split: option.splits)
  with Single t show ?thesis
    by (simp add: targets_of_def inline_target_def)
qed

lemma no_sites_run:
  "num_sites hooks = 0 \<Longrightarrow> inline_hooks ks ps buf st hooks = Inr st"
proof (induction hooks)
  case Nil
  then show ?case by simp
next
  case (Cons h hs)
  obtain nm spec where h: "h = (nm, spec)" by (cases h)
  from Cons.prems h have s: "count_sites spec + num_sites hs = 0"
    by (simp add: num_sites_sum)
  with count_sites_nonneg [of spec] num_sites_nonneg [of hs]
  have "count_sites spec = 0" "num_sites hs = 0" by linarith+
  with Cons.IH h show ?case by (simp add: no_site_targets)
qed

lemma inline_arena_cases:
  "inline_arena buf hooks =
     (if find_code_cave buf (arena_need hooks) < 0
      then (int (length buf), buf @ replicate (nat (arena_need hooks)) 0)
      else (find_code_cave buf (arena_need hooks), buf))"
  by (simp add: inline_arena_def Let_def)

lemma bps_arena_cases:
  "bps_arena buf hooks =
     (if find_code_cave_bps buf (arena_total hooks) < 0
      then Inl (SystemExit ''No suitable code cave found for trampolines.'')
      else Inr (find_code_cave_bps buf (arena_total hooks)))"
  by (simp add: bps_arena_def Let_def)

lemma bps_main_no_cave:
  assumes "find_code_cave_bps buf (arena_total hooks) < 0"
  shows "bps_main kb kd fc fa buf hooks fs =
           (fs, Some (SystemExit ''No suitable code cave found for trampolines.''))"
  using assms by (simp add: bps_main_def bps_arena_cases)

lemma end_most_cave_result: "end_most_cave buf n r \<Longrightarrow> r = - 1 \<or> 0 \<le> r"
  by (auto simp: end_most_cave_def)

lemma bps_main_outputs:
  assumes "bps_arena buf hooks = Inr off"
    and "bps_hooks kb kd buf \<lparr>b_mod = buf, b_arena_cur = off, b_hook_records = []\<rparr> hooks = Inr st"
  shows "bps_main kb kd fc fa buf hooks fs = bps_outputs fc fa buf (b_mod st) fs"
  using assms by (simp add: bps_main_def)

section \<open>The loop of make_bps.py, and runs that do not raise\<close>

lemma records_from_append:
  "records_from c (xs @ ys) =
     records_from c xs @ records_from (c + arena_need_each * int (length xs)) ys"
  by (induction c xs rule: records_from.induct) (simp_all add: algebra_simps)

lemma site_records_from: "map rec_site_off (records_from c xs) = map snd xs"
  by (induction c xs rule: records_from.induct) simp_all

lemma name_records_from: "map rec_name (records_from c xs) = map fst xs"
  by (induction c xs rule: records_from.induct) simp_all

lemma bps_hook_Inr:
  assumes "bps_hook kb kd buf st h = Inr st'"
  shows "(accepted_bps buf (snd h) = None \<and> st' = st) \<or>
         (\<exists>s. accepted_bps buf (snd h) = Some s \<and>
              b_hook_records st' = b_hook_records st @ records_from (b_arena_cur st) [(fst h, s)] \<and>
              b_arena_cur st' = b_arena_cur st + arena_need_each)"
  using assms unfolding bps_hook_def accepted_bps_def
  by (auto simp: Let_def split: sum.splits option.splits if_splits)

lemma bps_hooks_Inr:
  "bps_hooks kb kd buf st hooks = Inr st' \<Longrightarrow>
   b_hook_records st' =
     b_hook_records st @ records_from (b_arena_cur st) (accepted_bps_sites buf hooks) \<and>
   b_arena_cur st' =
     b_arena_cur st + arena_need_each * int (length (accepted_bps_sites buf hooks))"
proof (induction hooks arbitrary: st)
  case Nil
  then show ?case by (simp add: accepted_bps_sites_def map_filter_simps)
next
  case (Cons h hs)
  from Cons.prems obtain st1 where
    s1: "bps_hook kb kd buf st h = Inr st1" and
    s2: "bps_hooks kb kd buf st1 hs = Inr st'"
    by (auto split: sum.splits)
  note ih = Cons.IH [OF s2]
  from bps_hook_Inr [OF s1] show ?case
  proof (elim disjE conjE exE)
    assume "accepted_bps buf (snd h) = None" "st1 = st"
    with ih show ?thesis by (simp add: accepted_bps_sites_def map_filter_simps)
  next
    fix s
    assume "accepted_bps buf (snd h) = Some s"
      and "b_hook_records st1 = b_hook_records st @ records_from (b_arena_cur st) [(fst h, s)]"
      and "b_arena_cur st1 = b_arena_cur st + arena_need_each"
    with ih show ?thesis
      by (simp add: accepted_bps_sites_def map_filter_simps algebra_simps)
  qed
qed

lemma accepted_sites_append:
  "accepted_sites buf (hs1 @ hs2) = accepted_sites buf hs1 @ accepted_sites buf hs2"
  by (simp add: accepted_sites_def)

lemma accepted_bps_sites_append:
  "accepted_bps_sites buf (hs1 @ hs2) = accepted_bps_sites buf hs1 @ accepted_bps_sites buf hs2"
  by (simp add: accepted_bps_sites_def map_filter_def)

lemma asm_abs_jump_va_ok:
  assumes "assembles ks 8"
  shows "\<exists>b. asm_abs_jump_va ks to_va origin = Inr b \<and> length b = 8"
proof -
  from assms obtain b where "ks to_va (CODE_BASE + origin) = Some b" "length b = 8"
    unfolding assembles_def by blast
  then show ?thesis by (simp add: asm_abs_jump_va_def Let_def)
qed

lemma build_tramp_ok:
  assumes "assembles ks 8"
  shows "\<exists>j. build_tramp ks modb site toff = Inr (steal modb site @ j) \<and> length j = 8"
proof -
  from asm_abs_jump_va_ok [OF assms]
  obtain j where "asm_abs_jump_va ks (CODE_BASE + (site + STOLEN_SIZE))
      (toff + int (length (steal modb site))) = Inr j" "length j = 8"
    by blast
  then show ?thesis by (simp add: build_tramp_def Let_def)
qed

lemma patch_site_ok:
  assumes "assembles ks 8"
  shows "\<exists>m. patch_site ks ps modb site toff = Inr m"
proof (cases ps)
  case True
  from asm_abs_jump_va_ok [OF assms]
  obtain d where "asm_abs_jump_va ks (CODE_BASE + toff) site = Inr d" "length d = 8"
    by blast
  with True show ?thesis by (simp add: patch_site_def Let_def STOLEN_SIZE_def)
next
  case False
  then show ?thesis by (simp add: patch_site_def)
qed

lemma inline_target_ok:
  assumes ks: "assembles ks 8" and ok: "\<not> target_raises buf spec t"
  shows "\<exists>st'. inline_target ks ps buf nm spec st t = Inr st'"
proof (cases "resolve_site buf t (spec_aob spec)")
  case (Inl e)
  with ok show ?thesis by (simp add: target_raises_def)
next
  case (Inr r)
  show ?thesis
  proof (cases r)
    case None
    with Inr show ?thesis by (simp add: inline_target_def)
  next
    case (Some s)
    show ?thesis
    proof (cases "s < 0")
      case True
      with Inr Some show ?thesis by (simp add: inline_target_def)
    next
      case False
      with ok Inr Some obtain gl gb where
        g: "guard_snapshot buf (spec_guard spec) s = Inr (gl, gb)"
        by (cases "guard_snapshot buf (spec_guard spec) s") (auto simp: target_raises_def)
      from build_tramp_ok [OF ks] obtain j where
        t: "build_tramp ks (i_mod st) s (i_cur st) = Inr (steal (i_mod st) s @ j)"
        by blast
      from patch_site_ok [OF ks] obtain m where
        p: "patch_site ks ps
              (py_set_slice (i_mod st) (i_cur st)
                 (i_cur st + int (length (steal (i_mod st) s @ j))) (steal (i_mod st) s @ j))
              s (i_cur st) = Inr m"
        by blast
      from Inr Some False g t p show ?thesis
        by (simp add: inline_target_def Let_def)
    qed
  qed
qed

lemma inline_targets_ok:
  assumes ks: "assembles ks 8"
  shows "\<not> list_ex (target_raises buf spec) ts \<Longrightarrow>
         \<exists>st'. inline_targets ks ps buf nm spec st ts = Inr st'"
proof (induction ts arbitrary: st)
  case Nil
  then show ?case by simp
next
  case (Cons t ts)
  then have "\<not> target_raises buf spec t" by simp
  from inline_target_ok [OF ks this] obtain st1 where
    "inline_target ks ps buf nm spec st t = Inr st1" by blast
  moreover from Cons obtain st' where
    "inline_targets ks ps buf nm spec st1 ts = Inr st'" by auto
  ultimately show ?case by simp
qed

lemma inline_hooks_ok:
  assumes ks: "assembles ks 8"
  shows "\<not> map_raises buf hooks \<Longrightarrow> \<exists>st'. inline_hooks ks ps buf st hooks = Inr st'"
proof (induction hooks arbitrary: st)
  case Nil
  then show ?case by simp
next
  case (Cons h hs)
  obtain nm spec where h: "h = (nm, spec)" by (cases h)
  from Cons.prems h have a: "\<not> list_ex (target_raises buf spec) (targets_of spec)"
    and b: "\<not> map_raises buf hs"
    by (simp_all add: map_raises_def)
  from inline_targets_ok [OF ks a] obtain st1 where
    "inline_targets ks ps buf nm spec st (targets_of spec) = Inr st1" by blast
  moreover from Cons.IH [OF b] obtain st' where
    "inline_hooks ks ps buf st1 hs = Inr st'" by blast
  ultimately show ?case using h by simp
qed

lemma inline_main_ok:
  assumes "assembles ks 8" "\<not> map_raises buf hooks"
  shows "\<exists>out tbl. inline_main ks ps buf hooks = Inr (out, tbl)"
proof -
  obtain off m where ar: "inline_arena buf hooks = (off, m)"
    by (cases "inline_arena buf hooks")
  from inline_hooks_ok [OF assms] obtain st where
    "inline_hooks ks ps buf \<lparr>i_mod = m, i_cur = off, i_rows = [], i_hook_ids = []\<rparr> hooks = Inr st"
    by blast
  from inline_main_unfold [OF ar this] show ?thesis by blast
qed

lemma assembles_ks_arm: "assembles ks_arm 8"
  by (simp add: assembles_def ks_arm_def)

lemma key_rows_from:
  "map (\<lambda>r. (name r, site_off r, guard_len r, guard r)) (rows_from c xs) = xs"
  by (induction c xs rule: rows_from.induct) simp_all

lemma key_records_from:
  "map (\<lambda>r. (rec_name r, rec_site_off r)) (records_from c xs) = xs"
  by (induction c xs rule: records_from.induct) simp_all

lemma inline_new_rows:
  assumes "inline_hooks ks ps buf st hooks = Inr st'"
  shows "map (\<lambda>r. (name r, site_off r, guard_len r, guard r))
           (drop (length (i_rows st)) (i_rows st')) = accepted_sites buf hooks"
  using inline_hooks_Inr [OF assms] by (simp add: key_rows_from)

lemma bps_new_records:
  assumes "bps_hooks kb kd buf st hooks = Inr st'"
  shows "map (\<lambda>r. (rec_name r, rec_site_off r))
           (drop (length (b_hook_records st)) (b_hook_records st')) = accepted_bps_sites buf hooks"
  using bps_hooks_Inr [OF assms] by (simp add: key_records_from)

lemma bps_hook_guard_mismatch:
  assumes "bps_site buf spec = Inr (Some s)" "bps_guard_ok buf (spec_guard spec) s = Inr False"
  shows "bps_hook kb kd buf st (nm, spec) = Inr st"
  using assms by (simp add: bps_hook_def)

lemma bps_guard_ok_compare:
  assumes "spec_guard spec = Some g" "g \<noteq> []" "aob_to_bytes_mask g = Inr (gpat, gmsk)"
  shows "bps_guard_ok buf (spec_guard spec) s =
           Inr (window_eq (py_slice buf s (s + int (length gpat))) gpat gmsk)"
  using assms by (simp add: bps_guard_ok_def)

lemma inline_target_guard_ignored:
  assumes ks: "assembles ks 8"
    and r: "resolve_site buf t (spec_aob spec) = Inr (Some s)" "0 \<le> s"
    and g: "spec_guard spec = Some g" "g \<noteq> []" "aob_to_pat_mask g = Inr (gpat, gmsk)"
  shows "\<exists>st'. inline_target ks ps buf nm spec st t = Inr st' \<and>
           i_rows st' = i_rows st @
             [\<lparr>name = nm, site_off = s, tramp_off = i_cur st,
               guard = py_slice buf s (s + int (length gpat)), guard_len = length gpat\<rparr>] \<and>
           i_cur st' = i_cur st + per_tramp"
proof -
  have gs: "guard_snapshot buf (spec_guard spec) s =
      Inr (length gpat, py_slice buf s (s + int (length gpat)))"
    using g by (simp add: guard_snapshot_def)
  with r have nr: "\<not> target_raises buf spec t" by (simp add: target_raises_def)
  from inline_target_ok [OF ks nr] obtain st' where
    st': "inline_target ks ps buf nm spec st t = Inr st'" by blast
  have acc: "accepted_site buf spec t = Some (s, length gpat, py_slice buf s (s + int (length gpat)))"
    using r gs by (simp add: accepted_site_def)
  from inline_target_Inr [OF st'] acc st' show ?thesis by auto
qed

section \<open>What a step writes\<close>

lemma py_slice_window:
  assumes "0 \<le> a" "0 \<le> n"
  shows "py_slice xs a (a + n) = take (nat n) (drop (nat a) xs)"
proof -
  from assms have "py_slice xs a (a + n) = py_slice xs (int (nat a)) (int (nat a) + int (nat n))"
    by simp
  then show ?thesis by (simp only: py_slice_nat)
qed

lemma length_py_slice_window:
  assumes "0 \<le> a" "0 \<le> n"
  shows "length (py_slice xs a (a + n)) \<le> nat n"
  using assms by (simp add: py_slice_window)

lemma py_slice_agree:
  assumes ag: "agree_outside buf modb W"
    and a: "0 \<le> a" and n: "0 \<le> n" and fit: "a + n \<le> int (length buf)"
    and dis: "{nat a ..< nat a + nat n} \<inter> W = {}"
  shows "py_slice modb a (a + n) = py_slice buf a (a + n)"
proof -
  from ag have len: "length buf \<le> length modb"
    and same: "\<And>i. i < length buf \<Longrightarrow> i \<notin> W \<Longrightarrow> modb ! i = buf ! i"
    by (auto simp: agree_outside_def)
  from a n fit have f: "nat a + nat n \<le> length buf" by linarith
  have "take (nat n) (drop (nat a) modb) = take (nat n) (drop (nat a) buf)"
  proof (rule nth_equalityI)
    show "length (take (nat n) (drop (nat a) modb)) = length (take (nat n) (drop (nat a) buf))"
      using f len by simp
  next
    fix i assume "i < length (take (nat n) (drop (nat a) modb))"
    then have i: "i < nat n" by simp
    with f have "nat a + i < length buf" by simp
    moreover have "nat a + i \<notin> W"
    proof
      assume "nat a + i \<in> W"
      moreover from i have "nat a + i \<in> {nat a ..< nat a + nat n}" by simp
      ultimately show False using dis by blast
    qed
    ultimately have "modb ! (nat a + i) = buf ! (nat a + i)" by (rule same)
    with i f len show "take (nat n) (drop (nat a) modb) ! i = take (nat n) (drop (nat a) buf) ! i"
      by simp
  qed
  then show ?thesis by (simp only: py_slice_window [OF a n])
qed

lemma py_set_slice_window:
  assumes "0 \<le> a"
  shows "py_set_slice xs a (a + int (length ys)) ys =
           take (nat a) xs @ ys @ drop (nat a + length ys) xs"
proof (cases "nat a \<le> length xs")
  case True
  with assms have "py_index (length xs) a = nat a" by (simp add: py_index_def)
  moreover from assms have "py_index (length xs) (a + int (length ys)) = min (length xs) (nat a + length ys)"
    by (simp add: py_index_def nat_add_distrib)
  ultimately show ?thesis using True
    by (auto simp: py_set_slice_def Let_def max_def min_def)
next
  case False
  with assms have "py_index (length xs) a = length xs" by (simp add: py_index_def)
  moreover from assms False have "py_index (length xs) (a + int (length ys)) = length xs"
    by (simp add: py_index_def nat_add_distrib)
  ultimately show ?thesis using False
    by (simp add: py_set_slice_def Let_def)
qed

lemma py_set_slice_frame:
  assumes a: "0 \<le> a"
  shows "length xs \<le> length (py_set_slice xs a (a + int (length ys)) ys)"
    and "i < length xs \<Longrightarrow> i \<notin> {nat a ..< nat a + length ys} \<Longrightarrow>
         py_set_slice xs a (a + int (length ys)) ys ! i = xs ! i"
proof -
  note e = py_set_slice_window [OF a, of xs ys]
  show "length xs \<le> length (py_set_slice xs a (a + int (length ys)) ys)"
    unfolding e by simp
  assume i: "i < length xs" and out: "i \<notin> {nat a ..< nat a + length ys}"
  show "py_set_slice xs a (a + int (length ys)) ys ! i = xs ! i"
  proof (cases "i < nat a")
    case True
    with i show ?thesis unfolding e by (simp add: nth_append)
  next
    case False
    with out have ge: "nat a + length ys \<le> i" by simp
    with i have la: "nat a \<le> length xs" by simp
    from ge have n1: "\<not> i < nat a" and n2: "\<not> i - nat a < length ys" by simp_all
    from ge i la n1 n2 show ?thesis unfolding e
      by (simp add: nth_append min_def)
  qed
qed

lemma agree_outside_set_slice:
  assumes "agree_outside buf modb W" "0 \<le> a"
  shows "agree_outside buf (py_set_slice modb a (a + int (length ys)) ys)
           (W \<union> {nat a ..< nat a + length ys})"
proof -
  from assms(1) have len: "length buf \<le> length modb"
    and same: "\<And>i. i < length buf \<Longrightarrow> i \<notin> W \<Longrightarrow> modb ! i = buf ! i"
    by (auto simp: agree_outside_def)
  have "length buf \<le> length (py_set_slice modb a (a + int (length ys)) ys)"
    using py_set_slice_frame(1) [OF assms(2), of modb ys] len by simp
  moreover have "py_set_slice modb a (a + int (length ys)) ys ! i = buf ! i"
    if "i < length buf" "i \<notin> W \<union> {nat a ..< nat a + length ys}" for i
  proof -
    from that len have "i < length modb" "i \<notin> {nat a ..< nat a + length ys}" by auto
    from py_set_slice_frame(2) [OF assms(2) this] same [of i] that show ?thesis by simp
  qed
  ultimately show ?thesis by (simp add: agree_outside_def)
qed

lemma agree_outside_mono: "agree_outside buf modb W \<Longrightarrow> W \<subseteq> V \<Longrightarrow> agree_outside buf modb V"
  by (auto simp: agree_outside_def)

lemma agree_outside_start: "agree_outside buf (snd (inline_arena buf hooks)) {}"
  by (simp add: inline_arena_cases agree_outside_def nth_append)

lemma asm_abs_jump_va_len: "asm_abs_jump_va ks a b = Inr j \<Longrightarrow> length j = 8"
  by (auto simp: asm_abs_jump_va_def Let_def split: option.splits if_splits)

lemma build_tramp_Inr:
  "build_tramp ks modb site toff = Inr tramp \<Longrightarrow>
   \<exists>j. tramp = steal modb site @ j \<and> length j = 8"
  by (auto simp: build_tramp_def Let_def split: sum.splits dest: asm_abs_jump_va_len)

lemma patch_site_Inr:
  "patch_site ks ps modb s toff = Inr m \<Longrightarrow>
   (\<not> ps \<and> m = modb) \<or>
   (ps \<and> (\<exists>d. length d = 8 \<and> m = py_set_slice modb s (s + int (length d)) d))"
  by (auto simp: patch_site_def Let_def STOLEN_SIZE_def split: sum.splits if_splits
      dest: asm_abs_jump_va_len)

lemma inline_target_mod:
  assumes "inline_target ks ps buf nm spec st t = Inr st'"
  shows "(accepted_site buf spec t = None \<and> st' = st) \<or>
         (\<exists>s gl gb tramp.
            accepted_site buf spec t = Some (s, gl, gb) \<and> 0 \<le> s \<and>
            build_tramp ks (i_mod st) s (i_cur st) = Inr tramp \<and>
            patch_site ks ps
              (py_set_slice (i_mod st) (i_cur st) (i_cur st + int (length tramp)) tramp)
              s (i_cur st) = Inr (i_mod st'))"
  using assms unfolding inline_target_def accepted_site_def
  by (auto simp: Let_def split: sum.splits option.splits if_splits prod.splits)

lemma length_steal: "0 \<le> s \<Longrightarrow> length (steal modb s) \<le> 8"
  using length_py_slice_window [of s 8 modb] by (simp add: steal_def STOLEN_SIZE_def)

lemma inline_target_frame:
  assumes run: "inline_target ks ps buf nm spec st t = Inr st'"
    and cur: "0 \<le> i_cur st" and ag: "agree_outside buf (i_mod st) W"
  shows "agree_outside buf (i_mod st') (W \<union> touched ps (i_cur st) (accepted_site buf spec t))"
  using inline_target_mod [OF run]
proof (elim disjE conjE exE)
  assume "accepted_site buf spec t = None" "st' = st"
  with ag show ?thesis by (simp add: touched_def)
next
  fix s gl gb tramp
  assume acc: "accepted_site buf spec t = Some (s, gl, gb)" and s: "0 \<le> s"
    and bt: "build_tramp ks (i_mod st) s (i_cur st) = Inr tramp"
    and pt: "patch_site ks ps
              (py_set_slice (i_mod st) (i_cur st) (i_cur st + int (length tramp)) tramp)
              s (i_cur st) = Inr (i_mod st')"
  let ?m1 = "py_set_slice (i_mod st) (i_cur st) (i_cur st + int (length tramp)) tramp"
  from build_tramp_Inr [OF bt] length_steal [OF s, of "i_mod st"]
  have lt: "length tramp \<le> 16" by auto
  have a1: "agree_outside buf ?m1 (W \<union> {nat (i_cur st) ..< nat (i_cur st) + length tramp})"
    by (rule agree_outside_set_slice [OF ag cur])
  from patch_site_Inr [OF pt] show ?thesis
  proof (elim disjE conjE exE)
    assume "\<not> ps" "i_mod st' = ?m1"
    with a1 lt acc show ?thesis
      by (auto simp: touched_def elim!: agree_outside_mono)
  next
    fix d
    assume ps: ps and d: "length d = 8"
      and m: "i_mod st' = py_set_slice ?m1 s (s + int (length d)) d"
    from agree_outside_set_slice [OF a1 s, of d] m
    have "agree_outside buf (i_mod st')
            (W \<union> {nat (i_cur st) ..< nat (i_cur st) + length tramp} \<union> {nat s ..< nat s + length d})"
      by simp
    with lt d ps acc show ?thesis
      by (auto simp: touched_def elim!: agree_outside_mono)
  qed
qed

lemma bps_tramp_Inr:
  "bps_tramp kb modb s toff = Inr tramp \<Longrightarrow>
   take (length (bps_steal modb s)) tramp = bps_steal modb s"
  by (auto simp: bps_tramp_def Let_def split: option.splits if_splits)

lemma assemble_detour_len: "assemble_detour kd lo hi = Inr d \<Longrightarrow> length d = 10"
  by (auto simp: assemble_detour_def split: option.splits if_splits)

lemma bps_hook_mod:
  assumes "bps_hook kb kd buf st h = Inr st'"
  shows "(accepted_bps buf (snd h) = None \<and> st' = st) \<or>
         (\<exists>s tramp d.
            accepted_bps buf (snd h) = Some s \<and>
            bps_tramp kb (b_mod st) s (b_arena_cur st) = Inr tramp \<and>
            assemble_detour kd 0 0 = Inr d \<and>
            b_mod st' =
              py_set_slice
                (py_set_slice (b_mod st) (b_arena_cur st)
                   (b_arena_cur st + int (length tramp)) tramp)
                s (s + 10) d)"
  using assms unfolding bps_hook_def accepted_bps_def
  by (auto simp: Let_def split: sum.splits option.splits if_splits)

lemma bps_hook_frame:
  assumes run: "bps_hook kb kd buf st h = Inr st'"
    and cur: "0 \<le> b_arena_cur st" and ag: "agree_outside buf (b_mod st) W"
    and acc: "accepted_bps buf (snd h) = Some s" and s: "0 \<le> s"
    and bt: "bps_tramp kb (b_mod st) s (b_arena_cur st) = Inr tramp"
  shows "agree_outside buf (b_mod st')
           (W \<union> {nat (b_arena_cur st) ..< nat (b_arena_cur st) + length tramp}
              \<union> {nat s ..< nat s + 10})"
  using bps_hook_mod [OF run]
proof (elim disjE conjE exE)
  assume "accepted_bps buf (snd h) = None"
  with acc show ?thesis by simp
next
  fix s' tramp' d
  assume acc': "accepted_bps buf (snd h) = Some s'"
    and bt': "bps_tramp kb (b_mod st) s' (b_arena_cur st) = Inr tramp'"
    and ad: "assemble_detour kd 0 0 = Inr d"
    and m: "b_mod st' =
              py_set_slice
                (py_set_slice (b_mod st) (b_arena_cur st)
                   (b_arena_cur st + int (length tramp')) tramp')
                s' (s' + 10) d"
  from assemble_detour_len [OF ad] have d: "length d = 10" .
  from acc acc' have e1: "s' = s" by simp
  with bt bt' have e2: "tramp' = tramp" by simp
  from agree_outside_set_slice [OF agree_outside_set_slice [OF ag cur, of tramp] s, of d] m e1 e2 d
  show ?thesis by simp
qed

lemma steal_agree:
  assumes "agree_outside buf modb W" "0 \<le> site" "site + STOLEN_SIZE \<le> int (length buf)"
    and "{nat site ..< nat site + 8} \<inter> W = {}"
  shows "steal modb site = py_slice buf site (site + STOLEN_SIZE)"
  using py_slice_agree [OF assms(1,2), of 8] assms(3,4)
  by (simp add: steal_def STOLEN_SIZE_def)

lemma bps_steal_agree:
  assumes "agree_outside buf modb W" "0 \<le> site" "site + 10 \<le> int (length buf)"
    and "{nat site ..< nat site + 10} \<inter> W = {}"
  shows "bps_steal modb site = py_slice buf site (site + 10)"
  using py_slice_agree [OF assms(1,2), of 10] assms(3,4)
  by (simp add: bps_steal_def)

lemma agree_outside_refl: "agree_outside buf buf {}"
  by (simp add: agree_outside_def)

section \<open>A concrete run with one site taken twice\<close>

lemma same_site_run:
  "inline_main ks_arm True ten_bytes hook_same_site_twice = Inr (twice_out, twice_table)"
proof -
  have ar: "inline_arena ten_bytes hook_same_site_twice = (10, ten_bytes @ replicate 192 0)"
    by code_simp
  have run: "inline_hooks ks_arm True ten_bytes
      \<lparr>i_mod = ten_bytes @ replicate 192 0, i_cur = 10, i_rows = [], i_hook_ids = []\<rparr>
      hook_same_site_twice =
      Inr \<lparr>i_mod = twice_out, i_cur = 202,
           i_rows = [\<lparr>name = ''h'', site_off = 0, tramp_off = 10, guard = [], guard_len = 0\<rparr>,
                     \<lparr>name = ''h'', site_off = 0, tramp_off = 106, guard = [], guard_len = 0\<rparr>],
           i_hook_ids = [''h'', ''h'']\<rparr>"
    by code_simp
  have tb: "emit_header [\<lparr>name = ''h'', site_off = 0, tramp_off = 10, guard = [], guard_len = 0\<rparr>,
                     \<lparr>name = ''h'', site_off = 0, tramp_off = 106, guard = [], guard_len = 0\<rparr>]
              [''h'', ''h''] = twice_table"
    by code_simp
  from inline_main_unfold [OF ar run] tb show ?thesis by simp
qed

section \<open>What the slot of a step holds\<close>

lemma py_slice_set_slice_same:
  assumes c: "0 \<le> c" "c \<le> int (length xs)" and k: "k \<le> length ys"
  shows "py_slice (py_set_slice xs c (c + int (length ys)) ys) c (c + int k) = take k ys"
proof -
  have n: "nat c \<le> length xs" using c by simp
  have "py_set_slice xs c (c + int (length ys)) ys = take (nat c) xs @ ys @ drop (nat c + length ys) xs"
    by (rule py_set_slice_window [OF c(1)])
  moreover have "py_slice (take (nat c) xs @ ys @ drop (nat c + length ys) xs) c (c + int k) =
      take k (drop (nat c) (take (nat c) xs @ ys @ drop (nat c + length ys) xs))"
    using py_slice_window [OF c(1), of "int k" "take (nat c) xs @ ys @ drop (nat c + length ys) xs"]
    by simp
  moreover have "take k (drop (nat c) (take (nat c) xs @ ys @ drop (nat c + length ys) xs)) = take k ys"
    using n k by (simp add: min_def)
  ultimately show ?thesis by simp
qed

lemma py_set_slice_keeps_before:
  assumes s: "0 \<le> s" and a: "0 \<le> a" "0 \<le> k" and fit: "a + k \<le> int (length xs)"
    and dis: "a + k \<le> s"
  shows "py_slice (py_set_slice xs s (s + int (length d)) d) a (a + k) = py_slice xs a (a + k)"
proof -
  have e: "py_set_slice xs s (s + int (length d)) d = take (nat s) xs @ d @ drop (nat s + length d) xs"
    by (rule py_set_slice_window [OF s])
  have le: "nat a + nat k \<le> nat s" "nat a + nat k \<le> length xs"
    using a fit dis s by (simp_all add: nat_le_iff nat_add_distrib [symmetric])
  have "take (nat k) (drop (nat a) (take (nat s) xs @ d @ drop (nat s + length d) xs)) =
        take (nat k) (drop (nat a) (take (nat s) xs))"
    using le by simp
  also have "\<dots> = take (nat k) (take (nat s - nat a) (drop (nat a) xs))"
    by (simp add: drop_take)
  also have "\<dots> = take (nat k) (drop (nat a) xs)"
    using le by (simp add: min_def)
  finally have "take (nat k) (drop (nat a) (take (nat s) xs @ d @ drop (nat s + length d) xs)) =
        take (nat k) (drop (nat a) xs)" .
  then show ?thesis
    by (simp add: e py_slice_window [OF a])
qed

lemma py_set_slice_keeps_after:
  assumes s: "0 \<le> s" and a: "0 \<le> a" "0 \<le> k"
    and fit: "s + int (length d) \<le> int (length xs)"
    and dis: "s + int (length d) \<le> a"
  shows "py_slice (py_set_slice xs s (s + int (length d)) d) a (a + k) = py_slice xs a (a + k)"
proof -
  have e: "py_set_slice xs s (s + int (length d)) d = take (nat s) xs @ d @ drop (nat s + length d) xs"
    by (rule py_set_slice_window [OF s])
  have le: "nat s + length d \<le> nat a" "nat s \<le> length xs" "nat s + length d \<le> length xs"
    using a fit dis s by simp_all
  then obtain m where m: "nat a = nat s + length d + m"
    using le_Suc_ex by blast
  have "drop (nat a) (take (nat s) xs @ d @ drop (nat s + length d) xs) = drop (nat a) xs"
    using le by (simp add: m min_def add.commute add.left_commute)
  then show ?thesis
    by (simp add: e py_slice_window [OF a])
qed


lemma length_set_slice_ge:
  assumes "0 \<le> c" "c \<le> int (length xs)"
  shows "c + int (length ys) \<le> int (length (py_set_slice xs c (c + int (length ys)) ys))"
  using assms by (simp add: py_set_slice_window [OF assms(1)] min_def)

lemma inline_slot_holds_stolen:
  assumes run: "inline_target ks ps buf nm spec st t = Inr st'"
    and acc: "accepted_site buf spec t = Some (s, gl, gb)"
    and c: "0 \<le> i_cur st" "i_cur st \<le> int (length (i_mod st))"
    and dis: "\<not> ps \<or> s + STOLEN_SIZE \<le> i_cur st \<or> i_cur st + STOLEN_SIZE \<le> s"
  shows "py_slice (i_mod st') (i_cur st) (i_cur st + int (length (steal (i_mod st) s))) =
           steal (i_mod st) s"
proof -
  let ?c = "i_cur st"
  let ?st = "steal (i_mod st) s"
  from inline_target_mod [OF run] acc obtain tramp where
    s0: "0 \<le> s" and bt: "build_tramp ks (i_mod st) s ?c = Inr tramp"
    and ps: "patch_site ks ps (py_set_slice (i_mod st) ?c (?c + int (length tramp)) tramp) s ?c =
              Inr (i_mod st')"
    by auto
  from build_tramp_Inr [OF bt] obtain j where tr: "tramp = ?st @ j" and j: "length j = 8"
    by blast
  let ?m1 = "py_set_slice (i_mod st) ?c (?c + int (length tramp)) tramp"
  have k: "length ?st \<le> length tramp" by (simp add: tr)
  have r1: "py_slice ?m1 ?c (?c + int (length ?st)) = ?st"
    using py_slice_set_slice_same [OF c k] by (simp add: tr)
  have l1: "?c + int (length tramp) \<le> int (length ?m1)"
    by (rule length_set_slice_ge [OF c])
  have l8: "length ?st \<le> 8" by (rule length_steal [OF s0])
  from patch_site_Inr [OF ps] show ?thesis
  proof
    assume "\<not> ps \<and> i_mod st' = ?m1"
    then show ?thesis using r1 by simp
  next
    assume "ps \<and> (\<exists>d. length d = 8 \<and> i_mod st' = py_set_slice ?m1 s (s + int (length d)) d)"
    then obtain d where p: ps and d: "length d = 8"
      and m: "i_mod st' = py_set_slice ?m1 s (s + int (length d)) d" by blast
    from dis p have "s + 8 \<le> ?c \<or> ?c + 8 \<le> s" by (simp add: STOLEN_SIZE_def)
    then show ?thesis
    proof
      assume b: "s + 8 \<le> ?c"
      have "py_slice (py_set_slice ?m1 s (s + int (length d)) d) ?c (?c + int (length ?st)) =
            py_slice ?m1 ?c (?c + int (length ?st))"
        using b l1 c by (intro py_set_slice_keeps_after [OF s0 c(1)]) (simp_all add: d)
      then show ?thesis using r1 m by simp
    next
      assume a: "?c + 8 \<le> s"
      have "py_slice (py_set_slice ?m1 s (s + int (length d)) d) ?c (?c + int (length ?st)) =
            py_slice ?m1 ?c (?c + int (length ?st))"
        using a l1 l8 k by (intro py_set_slice_keeps_before [OF s0 c(1)]) simp_all
      then show ?thesis using r1 m by simp
    qed
  qed
qed

lemma length_bps_steal: "0 \<le> s \<Longrightarrow> length (bps_steal modb s) \<le> 10"
  using length_py_slice_window [of s 10 modb] by (simp add: bps_steal_def)

lemma bps_slot_holds_stolen:
  assumes run: "bps_hook kb kd buf st h = Inr st'"
    and acc: "accepted_bps buf (snd h) = Some s"
    and c: "0 \<le> b_arena_cur st" "b_arena_cur st \<le> int (length (b_mod st))"
    and s0: "0 \<le> s"
    and dis: "s + 10 \<le> b_arena_cur st \<or> b_arena_cur st + 10 \<le> s"
  shows "py_slice (b_mod st') (b_arena_cur st)
           (b_arena_cur st + int (length (bps_steal (b_mod st) s))) = bps_steal (b_mod st) s"
proof -
  let ?c = "b_arena_cur st"
  let ?st = "bps_steal (b_mod st) s"
  from bps_hook_mod [OF run] acc obtain tramp d where
    bt: "bps_tramp kb (b_mod st) s ?c = Inr tramp"
    and ad: "assemble_detour kd 0 0 = Inr d"
    and m: "b_mod st' = py_set_slice (py_set_slice (b_mod st) ?c (?c + int (length tramp)) tramp)
              s (s + 10) d"
    by auto
  let ?m1 = "py_set_slice (b_mod st) ?c (?c + int (length tramp)) tramp"
  have d: "length d = 10" by (rule assemble_detour_len [OF ad])
  have tk: "take (length ?st) tramp = ?st" by (rule bps_tramp_Inr [OF bt])
  have k: "length ?st \<le> length tramp"
    using arg_cong [OF tk, of length] by simp
  have r1: "py_slice ?m1 ?c (?c + int (length ?st)) = ?st"
    using py_slice_set_slice_same [OF c k] tk by simp
  have l1: "?c + int (length tramp) \<le> int (length ?m1)"
    by (rule length_set_slice_ge [OF c])
  have l10: "length ?st \<le> 10" by (rule length_bps_steal [OF s0])
  have m': "b_mod st' = py_set_slice ?m1 s (s + int (length d)) d" using m d by simp
  from dis show ?thesis
  proof
    assume b: "s + 10 \<le> ?c"
    have "py_slice (py_set_slice ?m1 s (s + int (length d)) d) ?c (?c + int (length ?st)) =
          py_slice ?m1 ?c (?c + int (length ?st))"
      using b l1 c by (intro py_set_slice_keeps_after [OF s0 c(1)]) (simp_all add: d)
    then show ?thesis using r1 m' by simp
  next
    assume a: "?c + 10 \<le> s"
    have "py_slice (py_set_slice ?m1 s (s + int (length d)) d) ?c (?c + int (length ?st)) =
          py_slice ?m1 ?c (?c + int (length ?st))"
      using a l1 l10 k by (intro py_set_slice_keeps_before [OF s0 c(1)]) simp_all
    then show ?thesis using r1 m' by simp
  qed
qed

lemma inline_target_steals_from_mod:
  assumes run: "inline_target ks ps buf nm spec st t = Inr st'"
    and acc: "accepted_site buf spec t = Some (s, gl, gb)"
  shows "\<exists>j. build_tramp ks (i_mod st) s (i_cur st) = Inr (steal (i_mod st) s @ j) \<and> length j = 8 \<and>
           patch_site ks ps
             (py_set_slice (i_mod st) (i_cur st)
                (i_cur st + int (length (steal (i_mod st) s @ j))) (steal (i_mod st) s @ j))
             s (i_cur st) = Inr (i_mod st')"
proof -
  from inline_target_mod [OF run] acc obtain tramp where
    bt: "build_tramp ks (i_mod st) s (i_cur st) = Inr tramp"
    and ps: "patch_site ks ps (py_set_slice (i_mod st) (i_cur st) (i_cur st + int (length tramp)) tramp)
               s (i_cur st) = Inr (i_mod st')"
    by auto
  from build_tramp_Inr [OF bt] obtain j where "tramp = steal (i_mod st) s @ j" "length j = 8"
    by blast
  with bt ps show ?thesis by (intro exI [of _ j]) simp
qed

lemma bps_hook_steals_from_mod:
  assumes run: "bps_hook kb kd buf st h = Inr st'"
    and acc: "accepted_bps buf (snd h) = Some s"
  shows "\<exists>tramp d. bps_tramp kb (b_mod st) s (b_arena_cur st) = Inr tramp \<and>
           take (length (bps_steal (b_mod st) s)) tramp = bps_steal (b_mod st) s \<and>
           assemble_detour kd 0 0 = Inr d \<and>
           b_mod st' =
             py_set_slice
               (py_set_slice (b_mod st) (b_arena_cur st) (b_arena_cur st + int (length tramp)) tramp)
               s (s + 10) d"
proof -
  from bps_hook_mod [OF run] acc obtain tramp d where
    bt: "bps_tramp kb (b_mod st) s (b_arena_cur st) = Inr tramp"
    and r: "assemble_detour kd 0 0 = Inr d"
      "b_mod st' = py_set_slice
               (py_set_slice (b_mod st) (b_arena_cur st) (b_arena_cur st + int (length tramp)) tramp)
               s (s + 10) d"
    by auto
  from bps_tramp_Inr [OF bt] bt r show ?thesis by blast
qed

section \<open>The guard comparison\<close>

lemma window_eq_iff:
  "window_eq w pat msk \<longleftrightarrow>
     (\<forall>k<min (length w) (min (length pat) (length msk)). msk ! k \<noteq> 0 \<longrightarrow> w ! k = pat ! k)"
proof (induction w pat msk rule: window_eq.induct)
  case (1 a w b pat m msk)
  then show ?case by (auto simp: All_less_Suc2)
qed simp_all

lemma window_eq_slice_agrees:
  assumes s: "0 \<le> s" and len: "length msk = length pat"
  shows "window_eq (py_slice buf s (s + int (length pat))) pat msk \<longleftrightarrow>
         guard_agrees buf pat msk (nat s)"
proof -
  have e: "py_slice buf s (s + int (length pat)) = take (length pat) (drop (nat s) buf)"
    using py_slice_window [OF s, of "int (length pat)" buf] by simp
  have "window_eq (take (length pat) (drop (nat s) buf)) pat msk \<longleftrightarrow>
        (\<forall>k<min (length pat) (length buf - nat s). msk ! k \<noteq> 0 \<longrightarrow> buf ! (nat s + k) = pat ! k)"
    by (auto simp: window_eq_iff len)
  also have "\<dots> \<longleftrightarrow> guard_agrees buf pat msk (nat s)"
    unfolding guard_agrees_def by (auto simp: less_diff_conv add.commute)
  finally show ?thesis by (simp add: e)
qed

lemma window_eq_slice_masked:
  assumes s: "0 \<le> s" and len: "length msk = length pat" and m: "set msk \<subseteq> {0, 0xFF}"
    and fit: "nat s + length pat \<le> length buf"
  shows "window_eq (py_slice buf s (s + int (length pat))) pat msk \<longleftrightarrow>
         masked_match buf pat msk (nat s)"
proof -
  have "window_ok (py_slice buf (int (nat s)) (int (nat s) + int (length pat))) pat msk \<longleftrightarrow>
        masked_match buf pat msk (nat s)"
    by (rule window_ok_slice [OF len fit])
  then show ?thesis using s by (simp add: window_eq_ok [OF m])
qed

lemma bps_guard_ok_agrees:
  assumes "spec_guard spec = Some g" "g \<noteq> []" "aob_to_bytes_mask g = Inr (gpat, gmsk)" "0 \<le> s"
  shows "bps_guard_ok buf (spec_guard spec) s = Inr (guard_agrees buf gpat gmsk (nat s))"
proof -
  from assms(3) have "length gmsk = length gpat"
    using bytes_mask_tokens_masks [of "py_split_ws [] g" gpat gmsk]
    by (simp add: aob_to_bytes_mask_def)
  from window_eq_slice_agrees [OF assms(4) this] bps_guard_ok_compare [OF assms(1-3)]
  show ?thesis by simp
qed

lemma bps_guard_ok_masked:
  assumes "spec_guard spec = Some g" "g \<noteq> []" "aob_to_bytes_mask g = Inr (gpat, gmsk)" "0 \<le> s"
    and "nat s + length gpat \<le> length buf"
  shows "bps_guard_ok buf (spec_guard spec) s = Inr (masked_match buf gpat gmsk (nat s))"
proof -
  from assms(3) have "length gmsk = length gpat" "set gmsk \<subseteq> {0, 0xFF}"
    using bytes_mask_tokens_masks [of "py_split_ws [] g" gpat gmsk]
    by (simp_all add: aob_to_bytes_mask_def)
  from window_eq_slice_masked [OF assms(4) this assms(5)] bps_guard_ok_compare [OF assms(1-3)]
  show ?thesis by simp
qed

lemma patch_site_detour:
  assumes "asm_abs_jump_va ks (CODE_BASE + toff) s = Inr d"
  shows "patch_site ks ps m s toff =
           Inr (if ps then py_set_slice m s (s + STOLEN_SIZE) d else m)"
  using assms asm_abs_jump_va_len [OF assms]
  by (simp add: patch_site_def STOLEN_SIZE_def)

lemma build_tramp_jump:
  assumes "asm_abs_jump_va ks (CODE_BASE + (s + STOLEN_SIZE)) (toff + int (length (steal m s))) = Inr j"
  shows "build_tramp ks m s toff = Inr (steal m s @ j)"
  using assms by (simp add: build_tramp_def)

lemma inline_target_guard_ignored_mod:
  assumes ks: "assembles ks 8"
    and r: "resolve_site buf t (spec_aob spec) = Inr (Some s)" "0 \<le> s"
    and g: "spec_guard spec = Some g" "g \<noteq> []" "aob_to_pat_mask g = Inr (gpat, gmsk)"
  shows "\<exists>st' j d. inline_target ks ps buf nm spec st t = Inr st' \<and>
           i_rows st' = i_rows st @
             [\<lparr>name = nm, site_off = s, tramp_off = i_cur st,
               guard = py_slice buf s (s + int (length gpat)), guard_len = length gpat\<rparr>] \<and>
           i_cur st' = i_cur st + per_tramp \<and>
           asm_abs_jump_va ks (CODE_BASE + (s + STOLEN_SIZE))
             (i_cur st + int (length (steal (i_mod st) s))) = Inr j \<and>
           asm_abs_jump_va ks (CODE_BASE + i_cur st) s = Inr d \<and>
           i_mod st' =
             (if ps
              then py_set_slice
                     (py_set_slice (i_mod st) (i_cur st)
                        (i_cur st + int (length (steal (i_mod st) s @ j))) (steal (i_mod st) s @ j))
                     s (s + STOLEN_SIZE) d
              else py_set_slice (i_mod st) (i_cur st)
                     (i_cur st + int (length (steal (i_mod st) s @ j))) (steal (i_mod st) s @ j))"
proof -
  from inline_target_guard_ignored [OF ks r g, of ps nm st] obtain st' where
    st': "inline_target ks ps buf nm spec st t = Inr st'"
    and rows: "i_rows st' = i_rows st @
             [\<lparr>name = nm, site_off = s, tramp_off = i_cur st,
               guard = py_slice buf s (s + int (length gpat)), guard_len = length gpat\<rparr>]"
    and cur: "i_cur st' = i_cur st + per_tramp"
    by blast
  have acc: "accepted_site buf spec t = Some (s, length gpat, py_slice buf s (s + int (length gpat)))"
    using r g by (simp add: accepted_site_def guard_snapshot_def)
  from asm_abs_jump_va_ok [OF ks] obtain j where
    j: "asm_abs_jump_va ks (CODE_BASE + (s + STOLEN_SIZE))
          (i_cur st + int (length (steal (i_mod st) s))) = Inr j" by blast
  from asm_abs_jump_va_ok [OF ks] obtain d where
    d: "asm_abs_jump_va ks (CODE_BASE + i_cur st) s = Inr d" by blast
  from inline_target_mod [OF st'] acc obtain tramp where
    bt: "build_tramp ks (i_mod st) s (i_cur st) = Inr tramp"
    and ps: "patch_site ks ps (py_set_slice (i_mod st) (i_cur st) (i_cur st + int (length tramp)) tramp)
               s (i_cur st) = Inr (i_mod st')"
    by auto
  from bt build_tramp_jump [OF j] have tr: "tramp = steal (i_mod st) s @ j" by simp
  from ps patch_site_detour [OF d] have
    m: "i_mod st' =
         (if ps then py_set_slice (py_set_slice (i_mod st) (i_cur st) (i_cur st + int (length tramp)) tramp)
                       s (s + STOLEN_SIZE) d
          else py_set_slice (i_mod st) (i_cur st) (i_cur st + int (length tramp)) tramp)"
    by simp
  from st' rows cur j d m [unfolded tr] show ?thesis
    by (intro exI [of _ st'] exI [of _ j] exI [of _ d] conjI)
qed

section \<open>The site of a pattern hook\<close>

lemma resolve_site_pattern:
  assumes "spec_aob spec = Some a" "a \<noteq> []" "aob_to_pat_mask a = Inr (pat, msk)"
  shows "resolve_site buf NoAddr (spec_aob spec) = Inr (Some (scan buf pat msk))"
  using assms by (simp add: resolve_site_def)

lemma bps_site_pattern:
  assumes "spec_addr spec = Single NoAddr" "spec_aob spec = Some a" "a \<noteq> []"
    and "aob_to_bytes_mask a = Inr (pat, msk)"
  shows "bps_site buf spec =
           Inr (if scan_aob buf pat msk < 0 then None else Some (scan_aob buf pat msk))"
  using assms by (simp add: bps_site_def Let_def)

lemma lowest_match_nonneg: "lowest_match buf pat msk r \<Longrightarrow> r \<noteq> - 1 \<Longrightarrow> 0 \<le> r"
  by (auto simp: lowest_match_def)

lemma scan_nonneg:
  assumes "aob_to_pat_mask a = Inr (pat, msk)" "scan buf pat msk \<noteq> - 1"
  shows "0 \<le> scan buf pat msk"
proof -
  from assms(1) have "length msk = length pat"
    using parse_tokens_length [of "aob_tokens a" pat msk] by (simp add: aob_to_pat_mask_def)
  from lowest_match_nonneg [OF scan_lowest [OF this] assms(2)] show ?thesis .
qed

lemma scan_aob_nonneg:
  assumes "aob_to_bytes_mask a = Inr (pat, msk)" "scan_aob buf pat msk \<noteq> - 1"
  shows "0 \<le> scan_aob buf pat msk"
proof -
  from assms(1) have m: "length msk = length pat" "set msk \<subseteq> {0, 0xFF}"
    using bytes_mask_tokens_masks [of "py_split_ws [] a" pat msk]
    by (simp_all add: aob_to_bytes_mask_def)
  from lowest_match_nonneg [OF scan_lowest [OF m(1), of buf]] assms(2) show ?thesis
    by (simp add: scan_aob_eq_scan [OF m(2)])
qed

lemma inline_target_pattern_site:
  assumes p: "spec_aob spec = Some a" "a \<noteq> []" "aob_to_pat_mask a = Inr (pat, msk)"
    and f: "scan buf pat msk \<noteq> - 1"
    and run: "inline_target ks ps buf nm spec st NoAddr = Inr st'"
  shows "map site_off (i_rows st') = map site_off (i_rows st) @ [scan buf pat msk]"
proof -
  have r: "resolve_site buf NoAddr (spec_aob spec) = Inr (Some (scan buf pat msk))"
    by (rule resolve_site_pattern [OF p])
  have n: "0 \<le> scan buf pat msk" by (rule scan_nonneg [OF p(3) f])
  from inline_target_Inr [OF run] show ?thesis
  proof
    assume "accepted_site buf spec NoAddr = None \<and> st' = st"
    then have none: "accepted_site buf spec NoAddr = None" by simp
    from run r n have "\<not> isl (guard_snapshot buf (spec_guard spec) (scan buf pat msk))"
      by (auto simp: inline_target_def split: sum.splits)
    with none r n show ?thesis
      by (auto simp: accepted_site_def split: sum.splits)
  next
    assume "\<exists>x. accepted_site buf spec NoAddr = Some x \<and>
              i_rows st' = i_rows st @ rows_from (i_cur st) [(nm, x)] \<and>
              i_cur st' = i_cur st + per_tramp \<and>
              i_hook_ids st' = i_hook_ids st @ [nm]"
    then obtain x where x: "accepted_site buf spec NoAddr = Some x"
      and rows: "i_rows st' = i_rows st @ rows_from (i_cur st) [(nm, x)]" by blast
    from x r have "fst x = scan buf pat msk"
      by (auto simp: accepted_site_def split: if_splits sum.splits)
    with rows show ?thesis by (cases x) simp
  qed
qed

lemma bps_hook_pattern_site:
  assumes p: "spec_addr spec = Single NoAddr" "spec_aob spec = Some a" "a \<noteq> []"
      "aob_to_bytes_mask a = Inr (pat, msk)"
    and f: "scan_aob buf pat msk \<noteq> - 1"
    and g: "bps_guard_ok buf (spec_guard spec) (scan_aob buf pat msk) = Inr True"
    and run: "bps_hook kb kd buf st (nm, spec) = Inr st'"
  shows "map rec_site_off (b_hook_records st') =
           map rec_site_off (b_hook_records st) @ [scan_aob buf pat msk]"
proof -
  have n: "0 \<le> scan_aob buf pat msk" by (rule scan_aob_nonneg [OF p(4) f])
  have "bps_site buf spec = Inr (Some (scan_aob buf pat msk))"
    using bps_site_pattern [OF p, of buf] n by simp
  with g have acc: "accepted_bps buf (snd (nm, spec)) = Some (scan_aob buf pat msk)"
    by (simp add: accepted_bps_def)
  from bps_hook_Inr [OF run] acc show ?thesis by auto
qed

lemma inline_target_bad_pattern:
  assumes "spec_aob spec = Some a" "a \<noteq> []" "aob_to_pat_mask a = Inl e"
  shows "inline_target ks ps buf nm spec st NoAddr = Inl e"
  using assms by (simp add: inline_target_def resolve_site_def)

lemma inline_hooks_bad_pattern:
  assumes "spec_addr spec = Single NoAddr" "spec_aob spec = Some a" "a \<noteq> []"
    and "aob_to_pat_mask a = Inl e"
  shows "inline_hooks ks ps buf st ((nm, spec) # hs) = Inl e"
  using inline_target_bad_pattern [OF assms(2-4)] assms(1) by (simp add: targets_of_def)

lemma bps_hook_bad_pattern:
  assumes "spec_addr spec = Single NoAddr" "spec_aob spec = Some a" "a \<noteq> []"
    and "aob_to_bytes_mask a = Inl e"
  shows "bps_hook kb kd buf st (nm, spec) = Inl e"
  using assms by (simp add: bps_hook_def bps_site_def)

lemma bps_hooks_bad_pattern:
  assumes "spec_addr spec = Single NoAddr" "spec_aob spec = Some a" "a \<noteq> []"
    and "aob_to_bytes_mask a = Inl e"
  shows "bps_hooks kb kd buf st ((nm, spec) # hs) = Inl e"
  using bps_hook_bad_pattern [OF assms] by simp

section \<open>Runs of make_bps.py without an accepted hook\<close>

lemma accepted_bps_sites_Cons:
  "accepted_bps_sites buf (h # hs) =
     (case accepted_bps buf (snd h) of None \<Rightarrow> [] | Some s \<Rightarrow> [(fst h, s)]) @
     accepted_bps_sites buf hs"
  by (simp add: accepted_bps_sites_def List.map_filter_simps split: option.splits)

lemma bps_hooks_none_accepted:
  "bps_hooks kb kd buf st hooks = Inr st' \<Longrightarrow> accepted_bps_sites buf hooks = [] \<Longrightarrow> st' = st"
proof (induction hooks arbitrary: st)
  case Nil
  then show ?case by simp
next
  case (Cons h hs)
  from Cons.prems(2) have n: "accepted_bps buf (snd h) = None" and r: "accepted_bps_sites buf hs = []"
    by (auto simp: accepted_bps_sites_Cons split: option.splits)
  from Cons.prems(1) obtain st1 where
    s1: "bps_hook kb kd buf st h = Inr st1" and s2: "bps_hooks kb kd buf st1 hs = Inr st'"
    by (auto split: sum.splits)
  from bps_hook_Inr [OF s1] n have "st1 = st" by auto
  with Cons.IH [OF s2 r] show ?case by simp
qed

lemma bps_main_none_accepted:
  assumes "accepted_bps_sites buf hooks = []"
  shows "(\<exists>e. bps_main kb kd fc fa buf hooks fs = (fs, Some e)) \<or>
         bps_main kb kd fc fa buf hooks fs = bps_outputs fc fa buf buf fs"
proof (cases "bps_arena buf hooks")
  case (Inl e)
  then show ?thesis by (simp add: bps_main_def)
next
  case (Inr off)
  show ?thesis
  proof (cases "bps_hooks kb kd buf \<lparr>b_mod = buf, b_arena_cur = off, b_hook_records = []\<rparr> hooks")
    case (Inl e)
    with Inr show ?thesis by (simp add: bps_main_def)
  next
    case r: (Inr st)
    from bps_hooks_none_accepted [OF r assms] have "b_mod st = buf" by simp
    with bps_main_outputs [OF Inr r] show ?thesis by simp
  qed
qed

lemma bps_outputs_image: "fst (bps_outputs fc fa base modb fs) Build_code_mod = Some modb"
  by (simp add: bps_outputs_def Let_def split: option.splits)

section \<open>The hook table\<close>

text \<open>
  Claim C8. In a run of make_inline.py that ends well, the enumeration \<open>HookId\<close> of the
  emitted table is the list of the entries' names without repetitions, in first-seen
  order; the entries themselves are not deduplicated: there is one entry for each accepted
  site, in the order of application (the names, sites and guard lengths of the entries
  are those of the accepted sites, and the k-th entry holds the k-th trampoline slot), and
  \<open>kNumHooks\<close> is the number of accepted sites.
\<close>

theorem hook_table_enum_deduplicated_entries_not:
  assumes "inline_main ks ps buf hooks = Inr (out, tbl)"
  shows "HookId tbl = first_seen (map entry_name (kHooks tbl)) \<and>
         distinct (HookId tbl) \<and>
         set (HookId tbl) = set (map entry_name (kHooks tbl)) \<and>
         map (\<lambda>e. (entry_name e, entry_site_off e, entry_guard_len e)) (kHooks tbl) =
           map (\<lambda>x. (fst x, fst (snd x), fst (snd (snd x)))) (accepted_sites buf hooks) \<and>
         map entry_tramp_off (kHooks tbl) =
           map (\<lambda>k. fst (inline_arena buf hooks) + per_tramp * int k)
             [0..<length (accepted_sites buf hooks)] \<and>
         length (kHooks tbl) = length (accepted_sites buf hooks) \<and>
         kNumHooks tbl = length (accepted_sites buf hooks)"
proof -
  let ?acc = "accepted_sites buf hooks"
  let ?rs = "rows_from (fst (inline_arena buf hooks)) ?acc"
  have tbl: "tbl = emit_header ?rs (map fst ?acc)"
    by (rule inline_main_table [OF assms])
  have names: "map entry_name (kHooks tbl) = map fst ?acc"
    using name_rows_from [of "fst (inline_arena buf hooks)" ?acc]
    by (simp add: tbl emit_header_def o_def)
  have ids: "HookId tbl = first_seen (map fst ?acc)"
    by (simp add: tbl emit_header_def unique_names_first_seen)
  have cols: "map (\<lambda>e. (entry_name e, entry_site_off e, entry_guard_len e)) (kHooks tbl) =
      map (\<lambda>x. (fst x, fst (snd x), fst (snd (snd x)))) ?acc"
    using cols_rows_from [of "fst (inline_arena buf hooks)" ?acc]
    by (simp add: tbl emit_header_def o_def)
  have tr: "map entry_tramp_off (kHooks tbl) =
      map (\<lambda>k. fst (inline_arena buf hooks) + per_tramp * int k) [0..<length ?acc]"
    using tramp_rows_from [of "fst (inline_arena buf hooks)" ?acc]
    by (simp add: tbl emit_header_def o_def)
  have len: "length (kHooks tbl) = length ?acc"
    by (simp add: tbl emit_header_def length_rows_from)
  have num: "kNumHooks tbl = length ?acc"
    by (simp add: tbl emit_header_def length_rows_from)
  from names ids cols tr len num show ?thesis
    by (simp add: distinct_first_seen set_first_seen)
qed

theorem hook_table_enum_deduplicated_entries_not_witness:
  "\<exists>out tbl. inline_main ks_arm True [1, 2, 3, 4, 5, 6, 7, 8, 9] hook_same_site_twice = Inr (out, tbl) \<and>
     HookId tbl = [''h''] \<and> map entry_name (kHooks tbl) = [''h'', ''h''] \<and> kNumHooks tbl = 2"
proof -
  let ?buf = "[1, 2, 3, 4, 5, 6, 7, 8, 9] :: byte list"
  have ar: "inline_arena ?buf hook_same_site_twice = (9, ?buf @ replicate 192 0)"
    by code_simp
  have "\<not> isl (inline_hooks ks_arm True ?buf
           \<lparr>i_mod = ?buf @ replicate 192 0, i_cur = 9, i_rows = [], i_hook_ids = []\<rparr>
           hook_same_site_twice)"
    by code_simp
  then obtain st where
    "inline_hooks ks_arm True ?buf
       \<lparr>i_mod = ?buf @ replicate 192 0, i_cur = 9, i_rows = [], i_hook_ids = []\<rparr>
       hook_same_site_twice = Inr st"
    by (cases "inline_hooks ks_arm True ?buf
       \<lparr>i_mod = ?buf @ replicate 192 0, i_cur = 9, i_rows = [], i_hook_ids = []\<rparr>
       hook_same_site_twice") auto
  from inline_main_unfold [OF ar this] obtain out tbl where
    r: "inline_main ks_arm True ?buf hook_same_site_twice = Inr (out, tbl)"
    by blast
  have a: "accepted_sites ?buf hook_same_site_twice = [(''h'', 0, 0, []), (''h'', 0, 0, [])]"
    by code_simp
  from hook_table_enum_deduplicated_entries_not [OF r] a
  have "HookId tbl = first_seen (map entry_name (kHooks tbl))"
    and "map (\<lambda>e. (entry_name e, entry_site_off e, entry_guard_len e)) (kHooks tbl) =
           [(''h'', 0, 0), (''h'', 0, 0)]"
    and "kNumHooks tbl = 2"
    by simp_all
  moreover from this(2) have "map entry_name (kHooks tbl) = [''h'', ''h'']"
    by (auto simp: map_eq_Cons_conv)
  ultimately show ?thesis using r by auto
qed

section \<open>The patch and its verification\<close>

text \<open>
  Claim C2, as the code has it. make_bps.py writes the mutated image, lets the diff engine
  write the patch file, lets it apply the patch to the original image and compares the
  reconstruction with the mutated image. A run that ends without error has a patch whose
  reconstruction is the mutated image, and only then is the patch staged into the
  distribution directory. When the reconstruction differs the run ends with the round-trip
  error and the staged copy is not written; the mutated image, the patch file and the
  reconstruction are on disk by then.
\<close>

theorem roundtrip_mismatch_fails_before_staging:
  "(snd (bps_outputs fc fa base modb fs) = None \<longrightarrow>
      (\<exists>bps. fc base modb = Some bps \<and> fa base bps = Some modb \<and>
         fst (bps_outputs fc fa base modb fs) Patch_code_bps = Some bps \<and>
         fst (bps_outputs fc fa base modb fs) Dist_code_bps = Some bps)) \<and>
   (fc base modb = Some bps \<and> fa base bps = Some verify \<and> verify \<noteq> modb \<longrightarrow>
      snd (bps_outputs fc fa base modb fs) = Some (SystemExit ''BPS roundtrip mismatch!'') \<and>
      fst (bps_outputs fc fa base modb fs) Dist_code_bps = fs Dist_code_bps \<and>
      fst (bps_outputs fc fa base modb fs) Build_code_mod = Some modb \<and>
      fst (bps_outputs fc fa base modb fs) Patch_code_bps = Some bps \<and>
      fst (bps_outputs fc fa base modb fs) Build_code_mod_verify = Some verify) \<and>
   (bps_arena buf hooks = Inr off \<and>
    bps_hooks kb kd buf \<lparr>b_mod = buf, b_arena_cur = off, b_hook_records = []\<rparr> hooks = Inr st \<longrightarrow>
      bps_main kb kd fc fa buf hooks fs = bps_outputs fc fa buf (b_mod st) fs)"
  by (auto simp: bps_outputs_def bps_main_outputs Let_def split: option.splits if_splits)

theorem roundtrip_mismatch_fails_before_staging_witness:
  "flips_whole cave_image cave_image = Some cave_image \<and>
   flips_apply_broken cave_image cave_image = Some [] \<and> [] \<noteq> cave_image \<and>
   snd (bps_outputs flips_whole flips_apply_broken cave_image cave_image no_files) =
     Some (SystemExit ''BPS roundtrip mismatch!'') \<and>
   fst (bps_outputs flips_whole flips_apply_broken cave_image cave_image no_files) Dist_code_bps = None \<and>
   fst (bps_outputs flips_whole flips_apply_broken cave_image cave_image no_files) Patch_code_bps =
     Some cave_image \<and>
   snd (bps_outputs flips_whole flips_apply_whole cave_image cave_image no_files) = None \<and>
   fst (bps_outputs flips_whole flips_apply_whole cave_image cave_image no_files) Dist_code_bps =
     Some cave_image"
proof -
  have h: "flips_whole cave_image cave_image = Some cave_image"
    "flips_apply_broken cave_image cave_image = Some []" "[] \<noteq> cave_image"
    by (simp_all add: flips_whole_def flips_apply_broken_def cave_image_def)
  have ok: "snd (bps_outputs flips_whole flips_apply_whole cave_image cave_image no_files) = None"
    by (simp add: bps_outputs_def flips_whole_def flips_apply_whole_def)
  from roundtrip_mismatch_fails_before_staging
    [of flips_whole flips_apply_broken cave_image cave_image no_files cave_image "[]"] h
  have "snd (bps_outputs flips_whole flips_apply_broken cave_image cave_image no_files) =
          Some (SystemExit ''BPS roundtrip mismatch!'')"
    and "fst (bps_outputs flips_whole flips_apply_broken cave_image cave_image no_files) Dist_code_bps = None"
    and "fst (bps_outputs flips_whole flips_apply_broken cave_image cave_image no_files) Patch_code_bps =
          Some cave_image"
    by (simp_all add: no_files_def)
  moreover from roundtrip_mismatch_fails_before_staging
    [of flips_whole flips_apply_whole cave_image cave_image no_files] ok
  have "fst (bps_outputs flips_whole flips_apply_whole cave_image cave_image no_files) Dist_code_bps =
          Some cave_image"
    by (auto simp: flips_whole_def)
  ultimately show ?thesis using h ok by simp
qed

theorem patch_file_written_despite_mismatch:
  "snd (bps_main ks_branch_stub ks_detour_zero flips_whole flips_apply_broken cave_image [] no_files) =
     Some (SystemExit ''BPS roundtrip mismatch!'') \<and>
   fst (bps_main ks_branch_stub ks_detour_zero flips_whole flips_apply_broken cave_image [] no_files)
     Patch_code_bps = Some cave_image \<and>
   fst (bps_main ks_branch_stub ks_detour_zero flips_whole flips_apply_broken cave_image [] no_files)
     Build_code_mod = Some cave_image"
proof -
  have "find_code_cave_bps cave_image (arena_total []) = 2" by code_simp
  then have ar: "bps_arena cave_image [] = Inr 2" by (simp add: bps_arena_cases)
  have "bps_main ks_branch_stub ks_detour_zero flips_whole flips_apply_broken cave_image [] no_files =
        bps_outputs flips_whole flips_apply_broken cave_image cave_image no_files"
    using bps_main_outputs [OF ar, of ks_branch_stub ks_detour_zero
        "\<lparr>b_mod = cave_image, b_arena_cur = 2, b_hook_records = []\<rparr>"]
    by simp
  then show ?thesis
    by (simp add: bps_outputs_def flips_whole_def flips_apply_broken_def cave_image_def)
qed

section \<open>The cave allocator\<close>

text \<open>
  Claim C5, as the code has it. For every positive requirement both cave searches return
  the start of the run of filler bytes of that length closest to the end of the image, or
  \<open>-1\<close> when the image has none; the requirement of a run is always positive. When there
  is none, make_inline.py appends exactly the required number of zero bytes and takes the
  old end of the image as the arena; make_bps.py has no such fallback and ends the run.
\<close>

theorem cave_search_end_most_fallback_by_script:
  "(0 < need \<longrightarrow> end_most_cave buf (nat need) (find_code_cave buf need)) \<and>
   (0 < need \<longrightarrow> end_most_cave buf (nat need) (find_code_cave_bps buf need)) \<and>
   end_most_cave buf (nat (arena_need hooks)) (find_code_cave buf (arena_need hooks)) \<and>
   end_most_cave buf (nat (arena_total hooks)) (find_code_cave_bps buf (arena_total hooks)) \<and>
   (find_code_cave buf (arena_need hooks) = - 1 \<longrightarrow>
      inline_arena buf hooks = (int (length buf), buf @ replicate (nat (arena_need hooks)) 0)) \<and>
   (find_code_cave buf (arena_need hooks) \<noteq> - 1 \<longrightarrow>
      inline_arena buf hooks = (find_code_cave buf (arena_need hooks), buf)) \<and>
   (find_code_cave_bps buf (arena_total hooks) = - 1 \<longrightarrow>
      bps_arena buf hooks = Inl (SystemExit ''No suitable code cave found for trampolines.'')) \<and>
   (find_code_cave_bps buf (arena_total hooks) \<noteq> - 1 \<longrightarrow>
      bps_arena buf hooks = Inr (find_code_cave_bps buf (arena_total hooks)))"
proof -
  have n: "0 < arena_need hooks" using arena_need_ge [of hooks] by simp
  have t: "0 < arena_total hooks" using arena_total_ge [of hooks] by simp
  have e1: "end_most_cave buf (nat (arena_need hooks)) (find_code_cave buf (arena_need hooks))"
    by (rule find_code_cave_end_most [OF n])
  have e2: "end_most_cave buf (nat (arena_total hooks)) (find_code_cave_bps buf (arena_total hooks))"
    by (rule find_code_cave_bps_end_most [OF t])
  from end_most_cave_result [OF e1] end_most_cave_result [OF e2] e1 e2
  show ?thesis
    by (auto simp: find_code_cave_end_most find_code_cave_bps_end_most
        inline_arena_cases bps_arena_cases)
qed

theorem cave_search_end_most_fallback_by_script_witness:
  "find_code_cave [1, 0, 0, 0xFF, 2, 0, 0] 3 = 1 \<and>
   end_most_cave [1, 0, 0, 0xFF, 2, 0, 0] 3 1 \<and>
   find_code_cave_bps [1, 0, 0, 0xFF, 2, 0, 0] 3 = 1 \<and>
   find_code_cave [0x01, 0x02] (arena_need []) = - 1 \<and>
   inline_arena [0x01, 0x02] [] = (2, [0x01, 0x02] @ replicate 0x60 0) \<and>
   find_code_cave_bps [0x01, 0x02] (arena_total []) = - 1 \<and>
   bps_arena [0x01, 0x02] [] = Inl (SystemExit ''No suitable code cave found for trampolines.'')"
proof -
  have a: "find_code_cave [1, 0, 0, 0xFF, 2, 0, 0] 3 = 1" by code_simp
  have b: "find_code_cave_bps [1, 0, 0, 0xFF, 2, 0, 0] 3 = 1" by code_simp
  have c: "find_code_cave [0x01, 0x02] (arena_need []) = - 1" by code_simp
  have d: "find_code_cave_bps [0x01, 0x02] (arena_total []) = - 1" by code_simp
  have n: "arena_need [] = 0x60" by code_simp
  from cave_search_end_most_fallback_by_script [of 3 "[1, 0, 0, 0xFF, 2, 0, 0]" "[]"] a
  have e: "end_most_cave [1, 0, 0, 0xFF, 2, 0, 0] 3 1" by simp
  from cave_search_end_most_fallback_by_script [of 3 "[0x01, 0x02]" "[]"] c d n
  have "inline_arena [0x01, 0x02] [] = (2, [0x01, 0x02] @ replicate 0x60 0)"
    and "bps_arena [0x01, 0x02] [] = Inl (SystemExit ''No suitable code cave found for trampolines.'')"
    by simp_all
  with a b c d e show ?thesis by simp
qed

theorem bps_cave_missing_is_fatal:
  "snd (bps_main ks_branch_stub ks_detour_zero flips_whole flips_apply_whole [0x01] [] no_files) =
     Some (SystemExit ''No suitable code cave found for trampolines.'') \<and>
   fst (bps_main ks_branch_stub ks_detour_zero flips_whole flips_apply_whole [0x01] [] no_files)
     Build_code_mod = None"
proof -
  have "find_code_cave_bps [0x01] (arena_total []) < 0" by code_simp
  from bps_main_no_cave [OF this] show ?thesis by (simp add: no_files_def)
qed

text \<open>
  Claim C10, as the code has it. make_inline.py asks for \<open>per_tramp\<close> times the larger
  of 1 and the number of hook sites, which is never less than one slot; a run whose address
  map has no site and whose image has no cave of one slot writes the image grown by one
  slot of zero bytes. make_bps.py asks for \<open>arena_need_each\<close> times the larger of 1 and
  the number of hooks, never less than one slot, and ends the run, before any file is
  written, when no cave of that size is found. It has no arena growth: a run in which no
  hook is accepted either ends with an error before any file is written or writes the
  image as it was read.
\<close>

theorem arena_request_never_zero:
  "arena_need hooks = per_tramp * max 1 (num_sites hooks) \<and>
   per_tramp \<le> arena_need hooks \<and>
   (num_sites hooks = 0 \<longrightarrow> arena_need hooks = per_tramp) \<and>
   (num_sites hooks = 0 \<and> find_code_cave buf per_tramp < 0 \<longrightarrow>
      inline_main ks ps buf hooks =
        Inr (buf @ replicate (nat per_tramp) 0, emit_header [] [])) \<and>
   arena_total hooks = arena_need_each * max 1 (int (length hooks)) \<and>
   arena_need_each \<le> arena_total hooks \<and>
   (find_code_cave_bps buf (arena_total hooks) < 0 \<longrightarrow>
      bps_main kb kd fc fa buf hooks fs =
        (fs, Some (SystemExit ''No suitable code cave found for trampolines.''))) \<and>
   (accepted_bps_sites buf hooks = [] \<longrightarrow>
      (\<exists>e. bps_main kb kd fc fa buf hooks fs = (fs, Some e)) \<or>
      bps_main kb kd fc fa buf hooks fs = bps_outputs fc fa buf buf fs) \<and>
   fst (bps_outputs fc fa buf modb fs) Build_code_mod = Some modb"
proof -
  have a: "num_sites hooks = 0 \<Longrightarrow> arena_need hooks = per_tramp"
    by (simp add: arena_need_def)
  have c1: "arena_need hooks = per_tramp * max 1 (num_sites hooks)"
    by (simp add: arena_need_def)
  have c2: "per_tramp \<le> arena_need hooks"
    using arena_need_ge by (simp add: per_tramp_def)
  have c3: "num_sites hooks = 0 \<longrightarrow> arena_need hooks = per_tramp"
    using a by simp
  have c4: "num_sites hooks = 0 \<and> find_code_cave buf per_tramp < 0 \<longrightarrow>
      inline_main ks ps buf hooks =
        Inr (buf @ replicate (nat per_tramp) 0, emit_header [] [])"
  proof
    assume h: "num_sites hooks = 0 \<and> find_code_cave buf per_tramp < 0"
    then have z: "num_sites hooks = 0" and c: "find_code_cave buf per_tramp < 0" by simp_all
    have ar: "inline_arena buf hooks = (int (length buf), buf @ replicate (nat per_tramp) 0)"
      using c a [OF z] by (simp add: inline_arena_cases)
    show "inline_main ks ps buf hooks =
        Inr (buf @ replicate (nat per_tramp) 0, emit_header [] [])"
      using inline_main_unfold [OF ar no_sites_run [OF z]] by simp
  qed
  have c5: "arena_total hooks = arena_need_each * max 1 (int (length hooks))"
    by (simp add: arena_total_def)
  have c6: "arena_need_each \<le> arena_total hooks"
    using arena_total_ge by (simp add: arena_need_each_def)
  have c7: "find_code_cave_bps buf (arena_total hooks) < 0 \<longrightarrow>
      bps_main kb kd fc fa buf hooks fs =
        (fs, Some (SystemExit ''No suitable code cave found for trampolines.''))"
    using bps_main_no_cave by simp
  have c8: "accepted_bps_sites buf hooks = [] \<longrightarrow>
      (\<exists>e. bps_main kb kd fc fa buf hooks fs = (fs, Some e)) \<or>
      bps_main kb kd fc fa buf hooks fs = bps_outputs fc fa buf buf fs"
    using bps_main_none_accepted [of buf hooks kb kd fc fa fs] by blast
  have c9: "fst (bps_outputs fc fa buf modb fs) Build_code_mod = Some modb"
    by (rule bps_outputs_image)
  show ?thesis
    by (intro conjI) (rule c1, rule c2, rule c3, rule c4, rule c5, rule c6, rule c7, rule c8,
        rule c9)
qed

theorem arena_request_never_zero_witness:
  "num_sites [] = 0 \<and> find_code_cave [0x01, 0x02] per_tramp < 0 \<and>
   find_code_cave_bps [0x01, 0x02] (arena_total []) < 0 \<and>
   arena_need [] = 0x60 \<and>
   inline_main ks_arm False [0x01, 0x02] [] = Inr ([0x01, 0x02] @ replicate 0x60 0, emit_header [] []) \<and>
   arena_total [] = 0x40 \<and>
   bps_main ks_branch_stub ks_detour_zero flips_whole flips_apply_whole [0x01, 0x02] [] no_files =
     (no_files, Some (SystemExit ''No suitable code cave found for trampolines.'')) \<and>
   accepted_bps_sites cave_image [(''p'', aob_hook ''EE'')] = [] \<and>
   snd (bps_main ks_branch_stub ks_detour_zero flips_whole flips_apply_whole cave_image
          [(''p'', aob_hook ''EE'')] no_files) = None \<and>
   fst (bps_main ks_branch_stub ks_detour_zero flips_whole flips_apply_whole cave_image
          [(''p'', aob_hook ''EE'')] no_files) Build_code_mod = Some cave_image"
proof -
  let ?hs = "[(''p'', aob_hook ''EE'')]"
  let ?run = "bps_main ks_branch_stub ks_detour_zero flips_whole flips_apply_whole cave_image ?hs no_files"
  have z: "num_sites [] = 0" by (simp add: num_sites_def)
  have c: "find_code_cave [0x01, 0x02] per_tramp < 0" by code_simp
  have d: "find_code_cave_bps [0x01, 0x02] (arena_total []) < 0" by code_simp
  from arena_request_never_zero [where hooks = "[]" and buf = "[0x01, 0x02]" and ks = ks_arm
      and ps = False and kb = ks_branch_stub and kd = ks_detour_zero and fc = flips_whole
      and fa = flips_apply_whole and fs = no_files] z c d
  have p1: "arena_need [] = 0x60"
    and p2: "inline_main ks_arm False [0x01, 0x02] [] = Inr ([0x01, 0x02] @ replicate 0x60 0, emit_header [] [])"
    and p3: "arena_total [] = 0x40"
    and p4: "bps_main ks_branch_stub ks_detour_zero flips_whole flips_apply_whole [0x01, 0x02] [] no_files =
     (no_files, Some (SystemExit ''No suitable code cave found for trampolines.''))"
    by (simp_all add: per_tramp_def arena_need_each_def)
  have acc: "accepted_bps_sites cave_image ?hs = []" by code_simp
  have ar: "bps_arena cave_image ?hs = Inr 2" by code_simp
  have run: "bps_hooks ks_branch_stub ks_detour_zero cave_image
      \<lparr>b_mod = cave_image, b_arena_cur = 2, b_hook_records = []\<rparr> ?hs =
      Inr \<lparr>b_mod = cave_image, b_arena_cur = 2, b_hook_records = []\<rparr>"
    by code_simp
  have ok: "snd (bps_outputs flips_whole flips_apply_whole cave_image cave_image no_files) = None"
    by (simp add: bps_outputs_def flips_whole_def flips_apply_whole_def)
  from bps_main_outputs [OF ar run] ok have sn: "snd ?run = None" by simp
  note w = arena_request_never_zero [where hooks = ?hs and buf = cave_image
      and kb = ks_branch_stub and kd = ks_detour_zero and fc = flips_whole
      and fa = flips_apply_whole and fs = no_files and modb = cave_image]
  from w acc have "(\<exists>e. ?run = (no_files, Some e)) \<or>
      ?run = bps_outputs flips_whole flips_apply_whole cave_image cave_image no_files"
    by blast
  with sn have "?run = bps_outputs flips_whole flips_apply_whole cave_image cave_image no_files"
    by auto
  moreover from w have
    "fst (bps_outputs flips_whole flips_apply_whole cave_image cave_image no_files) Build_code_mod =
       Some cave_image"
    by blast
  ultimately have im: "fst ?run Build_code_mod = Some cave_image" by simp
  from z c d p1 p2 p3 p4 acc sn im show ?thesis by (simp only: simp_thms)
qed

theorem bps_no_hooks_no_cave_aborts:
  "bps_main ks_branch_stub ks_detour_zero flips_whole flips_apply_whole [0x01, 0x02, 0x03] [] no_files =
     (no_files, Some (SystemExit ''No suitable code cave found for trampolines.''))"
proof -
  have "find_code_cave_bps [0x01, 0x02, 0x03] (arena_total []) < 0" by code_simp
  then show ?thesis by (rule bps_main_no_cave)
qed

section \<open>The resolver\<close>

text \<open>
  Claim C6, as the code has it. For every pattern text that the script at hand parses, the
  site that a pattern hook resolves to is the result of the scan, and the scan returns the
  lowest offset at which every candidate byte agrees with the pattern byte under the mask,
  or \<open>-1\<close> when no offset matches; for a pattern of fixed bytes only (every mask byte
  \<open>0xFF\<close>) this is the byte-for-byte substring search. A hook whose pattern is found
  and whose step ends without error gets a row (in make_bps.py a record, when its guard
  passes) with that offset as its site; a hook whose pattern matches nowhere leaves the
  state as it was and the loop goes on with the next hook. A pattern text that does not
  parse raises \<^verbatim>\<open>ValueError\<close>, which ends the loop and the run.
\<close>

theorem resolver_lowest_masked_match:
  "(length msk = length pat \<longrightarrow> lowest_match buf pat msk (scan buf pat msk)) \<and>
   (aob_to_pat_mask a = Inr (pat, msk) \<longrightarrow> lowest_match buf pat msk (scan buf pat msk)) \<and>
   (aob_to_bytes_mask a = Inr (pat, msk) \<longrightarrow> lowest_match buf pat msk (scan_aob buf pat msk)) \<and>
   scan buf pat (replicate (length pat) 0xFF) = substring_search buf pat \<and>
   scan_aob buf pat (replicate (length pat) 0xFF) = substring_search buf pat \<and>
   (spec_aob spec = Some a \<and> a \<noteq> [] \<and> aob_to_pat_mask a = Inr (pat, msk) \<longrightarrow>
      resolve_site buf NoAddr (spec_aob spec) = Inr (Some (scan buf pat msk))) \<and>
   (spec_addr spec = Single NoAddr \<and> spec_aob spec = Some a \<and> a \<noteq> [] \<and>
    aob_to_bytes_mask a = Inr (pat, msk) \<longrightarrow>
      bps_site buf spec =
        Inr (if scan_aob buf pat msk < 0 then None else Some (scan_aob buf pat msk))) \<and>
   (spec_aob spec = Some a \<and> a \<noteq> [] \<and> aob_to_pat_mask a = Inr (pat, msk) \<and>
    scan buf pat msk \<noteq> - 1 \<and> inline_target ks ps buf nm spec st NoAddr = Inr st' \<longrightarrow>
      map site_off (i_rows st') = map site_off (i_rows st) @ [scan buf pat msk]) \<and>
   (spec_addr spec = Single NoAddr \<and> spec_aob spec = Some a \<and> a \<noteq> [] \<and>
    aob_to_bytes_mask a = Inr (pat, msk) \<and> scan_aob buf pat msk \<noteq> - 1 \<and>
    bps_guard_ok buf (spec_guard spec) (scan_aob buf pat msk) = Inr True \<and>
    bps_hook kb kd buf bst (nm, spec) = Inr bst' \<longrightarrow>
      map rec_site_off (b_hook_records bst') =
        map rec_site_off (b_hook_records bst) @ [scan_aob buf pat msk]) \<and>
   (spec_aob spec = Some a \<and> a \<noteq> [] \<and> aob_to_pat_mask a = Inr (pat, msk) \<and>
    scan buf pat msk = - 1 \<longrightarrow>
      inline_target ks ps buf nm spec st NoAddr = Inr st \<and>
      (spec_addr spec = Single NoAddr \<longrightarrow>
         inline_hooks ks ps buf st ((nm, spec) # hs) = inline_hooks ks ps buf st hs)) \<and>
   (spec_addr spec = Single NoAddr \<and> spec_aob spec = Some a \<and> a \<noteq> [] \<and>
    aob_to_bytes_mask a = Inr (pat, msk) \<and> scan_aob buf pat msk = - 1 \<longrightarrow>
      bps_hook kb kd buf bst (nm, spec) = Inr bst \<and>
      bps_hooks kb kd buf bst ((nm, spec) # bhs) = bps_hooks kb kd buf bst bhs) \<and>
   (spec_addr spec = Single NoAddr \<and> spec_aob spec = Some a \<and> a \<noteq> [] \<and>
    aob_to_pat_mask a = Inl e \<longrightarrow>
      inline_target ks ps buf nm spec st NoAddr = Inl e \<and>
      inline_hooks ks ps buf st ((nm, spec) # hs) = Inl e) \<and>
   (spec_addr spec = Single NoAddr \<and> spec_aob spec = Some a \<and> a \<noteq> [] \<and>
    aob_to_bytes_mask a = Inl e \<longrightarrow>
      bps_hook kb kd buf bst (nm, spec) = Inl e \<and>
      bps_hooks kb kd buf bst ((nm, spec) # bhs) = Inl e)"
proof -
  have c1: "length msk = length pat \<longrightarrow> lowest_match buf pat msk (scan buf pat msk)"
    by (simp add: scan_lowest)
  have c2: "aob_to_pat_mask a = Inr (pat, msk) \<longrightarrow> lowest_match buf pat msk (scan buf pat msk)"
  proof
    assume "aob_to_pat_mask a = Inr (pat, msk)"
    then show "lowest_match buf pat msk (scan buf pat msk)"
      by (intro scan_lowest parse_tokens_length [of "aob_tokens a"])
        (simp add: aob_to_pat_mask_def)
  qed
  have c3: "aob_to_bytes_mask a = Inr (pat, msk) \<longrightarrow> lowest_match buf pat msk (scan_aob buf pat msk)"
  proof
    assume "aob_to_bytes_mask a = Inr (pat, msk)"
    then have m: "length msk = length pat" "set msk \<subseteq> {0, 0xFF}"
      using bytes_mask_tokens_masks [of "py_split_ws [] a" pat msk]
      by (simp_all add: aob_to_bytes_mask_def)
    show "lowest_match buf pat msk (scan_aob buf pat msk)"
      using scan_lowest [OF m(1)] by (simp only: scan_aob_eq_scan [OF m(2)])
  qed
  have c4: "scan buf pat (replicate (length pat) 0xFF) = substring_search buf pat"
    by (rule scan_fixed_substring)
  have c5: "scan_aob buf pat (replicate (length pat) 0xFF) = substring_search buf pat"
  proof -
    have "set (replicate (length pat) (0xFF :: byte)) \<subseteq> {0, 0xFF}" by auto
    from scan_aob_eq_scan [OF this] scan_fixed_substring [of buf pat]
    show ?thesis by simp
  qed
  have c6: "spec_aob spec = Some a \<and> a \<noteq> [] \<and> aob_to_pat_mask a = Inr (pat, msk) \<longrightarrow>
      resolve_site buf NoAddr (spec_aob spec) = Inr (Some (scan buf pat msk))"
    using resolve_site_pattern [of spec a pat msk buf] by blast
  have c7: "spec_addr spec = Single NoAddr \<and> spec_aob spec = Some a \<and> a \<noteq> [] \<and>
    aob_to_bytes_mask a = Inr (pat, msk) \<longrightarrow>
      bps_site buf spec =
        Inr (if scan_aob buf pat msk < 0 then None else Some (scan_aob buf pat msk))"
    using bps_site_pattern [of spec a pat msk buf] by blast
  have c8: "spec_aob spec = Some a \<and> a \<noteq> [] \<and> aob_to_pat_mask a = Inr (pat, msk) \<and>
    scan buf pat msk \<noteq> - 1 \<and> inline_target ks ps buf nm spec st NoAddr = Inr st' \<longrightarrow>
      map site_off (i_rows st') = map site_off (i_rows st) @ [scan buf pat msk]"
    using inline_target_pattern_site [of spec a pat msk buf ks ps nm st st'] by blast
  have c9: "spec_addr spec = Single NoAddr \<and> spec_aob spec = Some a \<and> a \<noteq> [] \<and>
    aob_to_bytes_mask a = Inr (pat, msk) \<and> scan_aob buf pat msk \<noteq> - 1 \<and>
    bps_guard_ok buf (spec_guard spec) (scan_aob buf pat msk) = Inr True \<and>
    bps_hook kb kd buf bst (nm, spec) = Inr bst' \<longrightarrow>
      map rec_site_off (b_hook_records bst') =
        map rec_site_off (b_hook_records bst) @ [scan_aob buf pat msk]"
    using bps_hook_pattern_site [of spec a pat msk buf kb kd bst nm bst'] by blast
  have c10: "spec_aob spec = Some a \<and> a \<noteq> [] \<and> aob_to_pat_mask a = Inr (pat, msk) \<and>
    scan buf pat msk = - 1 \<longrightarrow>
      inline_target ks ps buf nm spec st NoAddr = Inr st \<and>
      (spec_addr spec = Single NoAddr \<longrightarrow>
         inline_hooks ks ps buf st ((nm, spec) # hs) = inline_hooks ks ps buf st hs)"
    using inline_target_no_match [of spec a pat msk buf ks ps nm st] inline_hooks_skip
    by simp
  have c11: "spec_addr spec = Single NoAddr \<and> spec_aob spec = Some a \<and> a \<noteq> [] \<and>
    aob_to_bytes_mask a = Inr (pat, msk) \<and> scan_aob buf pat msk = - 1 \<longrightarrow>
      bps_hook kb kd buf bst (nm, spec) = Inr bst \<and>
      bps_hooks kb kd buf bst ((nm, spec) # bhs) = bps_hooks kb kd buf bst bhs"
    using bps_hook_no_match [of spec a pat msk buf kb kd bst nm] by simp
  have c12: "spec_addr spec = Single NoAddr \<and> spec_aob spec = Some a \<and> a \<noteq> [] \<and>
    aob_to_pat_mask a = Inl e \<longrightarrow>
      inline_target ks ps buf nm spec st NoAddr = Inl e \<and>
      inline_hooks ks ps buf st ((nm, spec) # hs) = Inl e"
    using inline_target_bad_pattern [of spec a e ks ps buf nm st]
      inline_hooks_bad_pattern [of spec a e ks ps buf st nm hs] by blast
  have c13: "spec_addr spec = Single NoAddr \<and> spec_aob spec = Some a \<and> a \<noteq> [] \<and>
    aob_to_bytes_mask a = Inl e \<longrightarrow>
      bps_hook kb kd buf bst (nm, spec) = Inl e \<and>
      bps_hooks kb kd buf bst ((nm, spec) # bhs) = Inl e"
    using bps_hook_bad_pattern [of spec a e kb kd buf bst nm]
      bps_hooks_bad_pattern [of spec a e kb kd buf bst nm bhs] by blast
  show ?thesis
    by (intro conjI) (rule c1, rule c2, rule c3, rule c4, rule c5, rule c6, rule c7, rule c8,
        rule c9, rule c10, rule c11, rule c12, rule c13)
qed

theorem resolver_lowest_masked_match_witness:
  "aob_to_pat_mask ''12 ?4'' = Inr ([0x12, 0x04], [0xFF, 0x0F]) \<and>
   scan scan_image [0x12, 0x04] [0xFF, 0x0F] = 3 \<and>
   lowest_match scan_image [0x12, 0x04] [0xFF, 0x0F] 3 \<and>
   resolve_site scan_image NoAddr (spec_aob (aob_hook ''12 ?4'')) = Inr (Some 3) \<and>
   (\<exists>st'. inline_target ks_arm True scan_image ''h'' (aob_hook ''12 ?4'')
             \<lparr>i_mod = scan_image, i_cur = 7, i_rows = [], i_hook_ids = []\<rparr> NoAddr = Inr st' \<and>
          map site_off (i_rows st') = [3]) \<and>
   aob_to_bytes_mask ''12 34'' = Inr ([0x12, 0x34], [0xFF, 0xFF]) \<and>
   scan_aob scan_image [0x12, 0x34] [0xFF, 0xFF] = 3 \<and>
   lowest_match scan_image [0x12, 0x34] [0xFF, 0xFF] 3 \<and>
   substring_search scan_image [0x12, 0x34] = 3 \<and>
   bps_site scan_image (aob_hook ''12 34'') = Inr (Some 3) \<and>
   (\<exists>bst'. bps_hook ks_branch_stub ks_detour_zero scan_image
              \<lparr>b_mod = scan_image, b_arena_cur = 7, b_hook_records = []\<rparr> (''h'', aob_hook ''12 34'') =
              Inr bst' \<and>
           map rec_site_off (b_hook_records bst') = [3]) \<and>
   aob_to_pat_mask ''EE'' = Inr ([0xEE], [0xFF]) \<and>
   aob_to_bytes_mask ''EE'' = Inr ([0xEE], [0xFF]) \<and>
   scan [0x01, 0x02, 0x03] [0xEE] [0xFF] = - 1 \<and>
   scan_aob [0x01, 0x02, 0x03] [0xEE] [0xFF] = - 1 \<and>
   substring_search [0x01, 0x02, 0x03] [0xEE] = - 1 \<and>
   lowest_match [0x01, 0x02, 0x03] [0xEE] [0xFF] (- 1) \<and>
   inline_target ks_arm True [0x01, 0x02, 0x03] ''h'' (aob_hook ''EE'')
     \<lparr>i_mod = [0x01, 0x02, 0x03], i_cur = 0, i_rows = [], i_hook_ids = []\<rparr> NoAddr =
     Inr \<lparr>i_mod = [0x01, 0x02, 0x03], i_cur = 0, i_rows = [], i_hook_ids = []\<rparr> \<and>
   bps_hook ks_branch_stub ks_detour_zero [0x01, 0x02, 0x03]
     \<lparr>b_mod = [0x01, 0x02, 0x03], b_arena_cur = 0, b_hook_records = []\<rparr> (''h'', aob_hook ''EE'') =
     Inr \<lparr>b_mod = [0x01, 0x02, 0x03], b_arena_cur = 0, b_hook_records = []\<rparr> \<and>
   aob_to_pat_mask ''1G'' = Inl (ValueError ''bad nibble'') \<and>
   inline_hooks ks_arm True scan_image
     \<lparr>i_mod = scan_image, i_cur = 7, i_rows = [], i_hook_ids = []\<rparr>
     [(''h'', aob_hook ''1G''), (''k'', aob_hook ''12 34'')] = Inl (ValueError ''bad nibble'') \<and>
   aob_to_bytes_mask ''1?'' = Inl (ValueError ''invalid literal for int() with base 16'') \<and>
   bps_hooks ks_branch_stub ks_detour_zero scan_image
     \<lparr>b_mod = scan_image, b_arena_cur = 7, b_hook_records = []\<rparr>
     [(''h'', aob_hook ''1?''), (''k'', aob_hook ''12 34'')] =
     Inl (ValueError ''invalid literal for int() with base 16'')"
proof -
  let ?i7 = "\<lparr>i_mod = scan_image, i_cur = 7, i_rows = [], i_hook_ids = []\<rparr>"
  let ?b7 = "\<lparr>b_mod = scan_image, b_arena_cur = 7, b_hook_records = []\<rparr>"
  let ?i3 = "\<lparr>i_mod = [0x01, 0x02, 0x03] :: byte list, i_cur = 0, i_rows = [], i_hook_ids = []\<rparr>"
  let ?b3 = "\<lparr>b_mod = [0x01, 0x02, 0x03] :: byte list, b_arena_cur = 0, b_hook_records = []\<rparr>"
  have a1: "aob_to_pat_mask ''12 ?4'' = Inr ([0x12, 0x04], [0xFF, 0x0F])" by code_simp
  have s1: "scan scan_image [0x12, 0x04] [0xFF, 0x0F] = 3" by code_simp
  have n1: "scan scan_image [0x12, 0x04] [0xFF, 0x0F] \<noteq> - 1" by (simp add: s1)
  have h1: "spec_addr (aob_hook ''12 ?4'') = Single NoAddr"
    "spec_aob (aob_hook ''12 ?4'') = Some ''12 ?4''" "''12 ?4'' \<noteq> []"
    by (simp_all add: aob_hook_def)
  note w1 = resolver_lowest_masked_match
    [where msk = "[0xFF, 0x0F]" and pat = "[0x12, 0x04]" and buf = scan_image and a = "''12 ?4''"
       and spec = "aob_hook ''12 ?4''" and ks = ks_arm and ps = True and nm = "''h''" and st = ?i7]
  from w1 a1 have "lowest_match scan_image [0x12, 0x04] [0xFF, 0x0F] (scan scan_image [0x12, 0x04] [0xFF, 0x0F])"
    by blast
  then have l1: "lowest_match scan_image [0x12, 0x04] [0xFF, 0x0F] 3" by (simp only: s1)
  from w1 h1 a1 have "resolve_site scan_image NoAddr (spec_aob (aob_hook ''12 ?4'')) =
      Inr (Some (scan scan_image [0x12, 0x04] [0xFF, 0x0F]))"
    by blast
  then have r1: "resolve_site scan_image NoAddr (spec_aob (aob_hook ''12 ?4'')) = Inr (Some 3)"
    by (simp only: s1)
  have nr: "\<not> target_raises scan_image (aob_hook ''12 ?4'') NoAddr" by code_simp
  from inline_target_ok [OF assembles_ks_arm nr] obtain st' where
    ir: "inline_target ks_arm True scan_image ''h'' (aob_hook ''12 ?4'') ?i7 NoAddr = Inr st'"
    by blast
  from w1 [where st' = st'] h1 a1 n1 ir
  have "map site_off (i_rows st') = map site_off (i_rows ?i7) @ [scan scan_image [0x12, 0x04] [0xFF, 0x0F]]"
    by blast
  then have "map site_off (i_rows st') = [3]" by (simp add: s1)
  with ir have e1: "\<exists>st'. inline_target ks_arm True scan_image ''h'' (aob_hook ''12 ?4'') ?i7 NoAddr = Inr st' \<and>
          map site_off (i_rows st') = [3]"
    by (intro exI [of _ st'] conjI)
  have a4: "aob_to_bytes_mask ''12 34'' = Inr ([0x12, 0x34], [0xFF, 0xFF])" by code_simp
  have s4: "scan_aob scan_image [0x12, 0x34] [0xFF, 0xFF] = 3" by code_simp
  have n4: "scan_aob scan_image [0x12, 0x34] [0xFF, 0xFF] \<noteq> - 1" by (simp add: s4)
  have h4: "spec_addr (aob_hook ''12 34'') = Single NoAddr"
    "spec_aob (aob_hook ''12 34'') = Some ''12 34''" "''12 34'' \<noteq> []"
    by (simp_all add: aob_hook_def)
  note w4 = resolver_lowest_masked_match
    [where msk = "[0xFF, 0xFF]" and pat = "[0x12, 0x34]" and buf = scan_image and a = "''12 34''"
       and spec = "aob_hook ''12 34''" and kb = ks_branch_stub and kd = ks_detour_zero
       and nm = "''h''" and bst = ?b7]
  from w4 a4 have "lowest_match scan_image [0x12, 0x34] [0xFF, 0xFF] (scan_aob scan_image [0x12, 0x34] [0xFF, 0xFF])"
    by blast
  then have l4: "lowest_match scan_image [0x12, 0x34] [0xFF, 0xFF] 3" by (simp only: s4)
  from w4 have "scan_aob scan_image [0x12, 0x34] (replicate (length [0x12, 0x34 :: byte]) 0xFF) =
      substring_search scan_image [0x12, 0x34]"
    by blast
  then have sub4: "substring_search scan_image [0x12, 0x34] = 3" using s4 by simp
  from w4 h4 a4 have "bps_site scan_image (aob_hook ''12 34'') =
      Inr (if scan_aob scan_image [0x12, 0x34] [0xFF, 0xFF] < 0 then None
           else Some (scan_aob scan_image [0x12, 0x34] [0xFF, 0xFF]))"
    by blast
  then have r4: "bps_site scan_image (aob_hook ''12 34'') = Inr (Some 3)" by (simp add: s4)
  have g4: "bps_guard_ok scan_image (spec_guard (aob_hook ''12 34''))
      (scan_aob scan_image [0x12, 0x34] [0xFF, 0xFF]) = Inr True"
    by (simp add: bps_guard_ok_def aob_hook_def)
  have "\<not> isl (bps_hook ks_branch_stub ks_detour_zero scan_image ?b7 (''h'', aob_hook ''12 34''))"
    by code_simp
  then obtain bst' where
    br: "bps_hook ks_branch_stub ks_detour_zero scan_image ?b7 (''h'', aob_hook ''12 34'') = Inr bst'"
    by (cases "bps_hook ks_branch_stub ks_detour_zero scan_image ?b7 (''h'', aob_hook ''12 34'')") auto
  from w4 [where bst' = bst'] h4 a4 n4 g4 br
  have "map rec_site_off (b_hook_records bst') =
      map rec_site_off (b_hook_records ?b7) @ [scan_aob scan_image [0x12, 0x34] [0xFF, 0xFF]]"
    by blast
  then have "map rec_site_off (b_hook_records bst') = [3]" by (simp add: s4)
  with br have e4: "\<exists>bst'. bps_hook ks_branch_stub ks_detour_zero scan_image ?b7 (''h'', aob_hook ''12 34'') =
              Inr bst' \<and> map rec_site_off (b_hook_records bst') = [3]"
    by (intro exI [of _ bst'] conjI)
  have a2: "aob_to_pat_mask ''EE'' = Inr ([0xEE], [0xFF])" by code_simp
  have a3: "aob_to_bytes_mask ''EE'' = Inr ([0xEE], [0xFF])" by code_simp
  have s2: "scan [0x01, 0x02, 0x03] [0xEE] [0xFF] = - 1" by code_simp
  have s3: "scan_aob [0x01, 0x02, 0x03] [0xEE] [0xFF] = - 1" by code_simp
  note w = resolver_lowest_masked_match
    [where msk = "[0xFF]" and pat = "[0xEE]" and buf = "[0x01, 0x02, 0x03]" and a = "''EE''"
       and spec = "aob_hook ''EE''" and ks = ks_arm and ps = True and nm = "''h''" and st = ?i3
       and hs = "[]" and kb = ks_branch_stub and kd = ks_detour_zero and bst = ?b3 and bhs = "[]"]
  have h: "spec_addr (aob_hook ''EE'') = Single NoAddr" "spec_aob (aob_hook ''EE'') = Some ''EE''"
    "''EE'' \<noteq> []"
    by (simp_all add: aob_hook_def)
  from w a2 have "lowest_match [0x01, 0x02, 0x03] [0xEE] [0xFF] (scan [0x01, 0x02, 0x03] [0xEE] [0xFF])"
    by blast
  then have l2: "lowest_match [0x01, 0x02, 0x03] [0xEE] [0xFF] (- 1)"
    by (simp only: s2)
  from w have "scan [0x01, 0x02, 0x03] [0xEE] (replicate (length [0xEE :: byte]) 0xFF) =
      substring_search [0x01, 0x02, 0x03] [0xEE]"
    by blast
  then have sub: "substring_search [0x01, 0x02, 0x03] [0xEE] = - 1"
    using s2 by simp
  from w h a2 s2 have i: "inline_target ks_arm True [0x01, 0x02, 0x03] ''h'' (aob_hook ''EE'') ?i3 NoAddr =
       Inr ?i3"
    by blast
  from w h a3 s3 have b: "bps_hook ks_branch_stub ks_detour_zero [0x01, 0x02, 0x03] ?b3 (''h'', aob_hook ''EE'') =
       Inr ?b3"
    by blast
  have a5: "aob_to_pat_mask ''1G'' = Inl (ValueError ''bad nibble'')" by code_simp
  have h5: "spec_addr (aob_hook ''1G'') = Single NoAddr" "spec_aob (aob_hook ''1G'') = Some ''1G''"
    "''1G'' \<noteq> []"
    by (simp_all add: aob_hook_def)
  from resolver_lowest_masked_match
    [where a = "''1G''" and spec = "aob_hook ''1G''" and e = "ValueError ''bad nibble''"
       and ks = ks_arm and ps = True and buf = scan_image and nm = "''h''" and st = ?i7
       and hs = "[(''k'', aob_hook ''12 34'')]"] h5 a5
  have f5: "inline_hooks ks_arm True scan_image ?i7
     [(''h'', aob_hook ''1G''), (''k'', aob_hook ''12 34'')] = Inl (ValueError ''bad nibble'')"
    by blast
  have a6: "aob_to_bytes_mask ''1?'' = Inl (ValueError ''invalid literal for int() with base 16'')"
    by code_simp
  have h6: "spec_addr (aob_hook ''1?'') = Single NoAddr" "spec_aob (aob_hook ''1?'') = Some ''1?''"
    "''1?'' \<noteq> []"
    by (simp_all add: aob_hook_def)
  from resolver_lowest_masked_match
    [where a = "''1?''" and spec = "aob_hook ''1?''"
       and e = "ValueError ''invalid literal for int() with base 16''"
       and kb = ks_branch_stub and kd = ks_detour_zero and buf = scan_image and nm = "''h''"
       and bst = ?b7 and bhs = "[(''k'', aob_hook ''12 34'')]"] h6 a6
  have f6: "bps_hooks ks_branch_stub ks_detour_zero scan_image ?b7
     [(''h'', aob_hook ''1?''), (''k'', aob_hook ''12 34'')] =
     Inl (ValueError ''invalid literal for int() with base 16'')"
    by blast
  from a1 s1 l1 r1 e1 a4 s4 l4 sub4 r4 e4 a2 a3 s2 s3 sub l2 i b a5 f5 a6 f6
  show ?thesis by (simp only: simp_thms)
qed

theorem bps_pattern_with_nibble_wildcard_ends_run:
  "aob_to_pat_mask ''0? 02'' = Inr ([0x00, 0x02], [0xF0, 0xFF]) \<and>
   scan cave_image [0x00, 0x02] [0xF0, 0xFF] = 0 \<and>
   lowest_match cave_image [0x00, 0x02] [0xF0, 0xFF] 0 \<and>
   bps_main ks_branch_stub ks_detour_zero flips_whole flips_apply_whole cave_image
     [(''a'', aob_hook ''0? 02'')] no_files =
     (no_files, Some (ValueError ''invalid literal for int() with base 16''))"
proof -
  have a: "aob_to_pat_mask ''0? 02'' = Inr ([0x00, 0x02], [0xF0, 0xFF])" by code_simp
  have s: "scan cave_image [0x00, 0x02] [0xF0, 0xFF] = 0" by code_simp
  have "lowest_match cave_image [0x00, 0x02] [0xF0, 0xFF] (scan cave_image [0x00, 0x02] [0xF0, 0xFF])"
    by (rule scan_lowest) simp
  then have l: "lowest_match cave_image [0x00, 0x02] [0xF0, 0xFF] 0" by (simp only: s)
  have ar: "bps_arena cave_image [(''a'', aob_hook ''0? 02'')] = Inr 2" by code_simp
  have run: "bps_hooks ks_branch_stub ks_detour_zero cave_image
      \<lparr>b_mod = cave_image, b_arena_cur = 2, b_hook_records = []\<rparr> [(''a'', aob_hook ''0? 02'')] =
      Inl (ValueError ''invalid literal for int() with base 16'')"
    by code_simp
  have "bps_main ks_branch_stub ks_detour_zero flips_whole flips_apply_whole cave_image
     [(''a'', aob_hook ''0? 02'')] no_files =
     (no_files, Some (ValueError ''invalid literal for int() with base 16''))"
    unfolding bps_main_def by (simp only: ar run sum.case)
  with a s l show ?thesis by (simp only: simp_thms)
qed

text \<open>
  Claim C7, as the code has it. In make_inline.py the token \<^verbatim>\<open>??\<close> matches every byte, a
  token that fixes only the high nibble \<open>h\<close> matches exactly the bytes \<open>16 h\<close> to
  \<open>16 h + 15\<close>, a token that fixes only the low nibble \<open>l\<close> matches exactly the bytes
  whose low nibble is \<open>l\<close>, and a token of two digits matches exactly the byte
  \<open>16 h + l\<close>. In make_bps.py only \<^verbatim>\<open>??\<close> and the fully fixed token are tokens; one with
  a single wildcard nibble raises \<^verbatim>\<open>ValueError\<close>.
\<close>

theorem token_wildcards_by_script:
  "parse_token ''??'' = Inr (0, 0) \<and> window_ok [a] [0] [0] \<and>
   bytes_mask_token ''??'' = Inr (0, 0) \<and> window_eq [a] [0] [0] \<and>
   (hex_digit c1 = Some h \<longrightarrow>
      parse_token [c1, CHR ''?''] = Inr (push_bit 4 (of_nat h), 0xF0) \<and>
      (window_ok [a] [push_bit 4 (of_nat h)] [0xF0] \<longleftrightarrow>
         16 * h \<le> unat a \<and> unat a \<le> 16 * h + 15) \<and>
      bytes_mask_token [c1, CHR ''?''] =
        Inl (ValueError ''invalid literal for int() with base 16'')) \<and>
   (hex_digit c2 = Some l \<longrightarrow>
      parse_token [CHR ''?'', c2] = Inr (of_nat l, 0x0F) \<and>
      (window_ok [a] [of_nat l] [0x0F] \<longleftrightarrow> unat a mod 16 = l) \<and>
      bytes_mask_token [CHR ''?'', c2] =
        Inl (ValueError ''invalid literal for int() with base 16'')) \<and>
   (hex_digit c1 = Some h \<and> hex_digit c2 = Some l \<longrightarrow>
      parse_token [c1, c2] = Inr (push_bit 4 (of_nat h) OR of_nat l, 0xFF) \<and>
      (window_ok [a] [push_bit 4 (of_nat h) OR of_nat l] [0xFF] \<longleftrightarrow> unat a = 16 * h + l) \<and>
      bytes_mask_token [c1, c2] = Inr (of_nat (16 * h + l), 0xFF) \<and>
      (window_eq [a] [of_nat (16 * h + l)] [0xFF] \<longleftrightarrow> unat a = 16 * h + l))"
proof -
  have hi: "parse_token [c1, CHR ''?''] = Inr (push_bit 4 (of_nat h), 0xF0) \<and>
      (window_ok [a] [push_bit 4 (of_nat h)] [0xF0] \<longleftrightarrow>
         16 * h \<le> unat a \<and> unat a \<le> 16 * h + 15) \<and>
      bytes_mask_token [c1, CHR ''?''] =
        Inl (ValueError ''invalid literal for int() with base 16'')"
    if "hex_digit c1 = Some h"
    using parse_token_hi [OF that] match_hi [OF hex_digit_facts(1) [OF that], of a]
      bytes_mask_token_hi [OF that] by blast
  have lo: "parse_token [CHR ''?'', c2] = Inr (of_nat l, 0x0F) \<and>
      (window_ok [a] [of_nat l] [0x0F] \<longleftrightarrow> unat a mod 16 = l) \<and>
      bytes_mask_token [CHR ''?'', c2] =
        Inl (ValueError ''invalid literal for int() with base 16'')"
    if "hex_digit c2 = Some l"
    using parse_token_lo [OF that] match_lo [OF hex_digit_facts(1) [OF that], of a]
      bytes_mask_token_lo [OF that] by blast
  have fu: "parse_token [c1, c2] = Inr (push_bit 4 (of_nat h) OR of_nat l, 0xFF) \<and>
      (window_ok [a] [push_bit 4 (of_nat h) OR of_nat l] [0xFF] \<longleftrightarrow> unat a = 16 * h + l) \<and>
      bytes_mask_token [c1, c2] = Inr (of_nat (16 * h + l), 0xFF) \<and>
      (window_eq [a] [of_nat (16 * h + l)] [0xFF] \<longleftrightarrow> unat a = 16 * h + l)"
    if "hex_digit c1 = Some h" "hex_digit c2 = Some l"
    using parse_token_full [OF that] bytes_mask_token_full [OF that]
      match_full [OF hex_digit_facts(1) [OF that(1)] hex_digit_facts(1) [OF that(2)], of a]
      match_eq_full [OF hex_digit_facts(1) [OF that(1)] hex_digit_facts(1) [OF that(2)], of a]
    by blast
  have w: "parse_token ''??'' = Inr (0, 0) \<and> window_ok [a] [0] [0] \<and>
      bytes_mask_token ''??'' = Inr (0, 0) \<and> window_eq [a] [0] [0]"
    by (simp add: parse_token_wild bytes_mask_token_wild)
  from w hi lo fu show ?thesis by blast
qed

theorem token_wildcards_by_script_witness:
  "hex_digit CHR ''A'' = Some 10 \<and> hex_digit CHR ''5'' = Some 5 \<and>
   parse_token ''A?'' = Inr (0xA0, 0xF0) \<and>
   window_ok [0xA0] [0xA0] [0xF0] \<and> window_ok [0xAF] [0xA0] [0xF0] \<and>
   \<not> window_ok [0x9F] [0xA0] [0xF0] \<and> \<not> window_ok [0xB0] [0xA0] [0xF0] \<and>
   parse_token ''?5'' = Inr (0x05, 0x0F) \<and>
   window_ok [0x35] [0x05] [0x0F] \<and> \<not> window_ok [0x36] [0x05] [0x0F] \<and>
   parse_token ''A5'' = Inr (0xA5, 0xFF) \<and>
   window_ok [0xA5] [0xA5] [0xFF] \<and> \<not> window_ok [0xA4] [0xA5] [0xFF] \<and>
   bytes_mask_token ''A5'' = Inr (0xA5, 0xFF) \<and>
   bytes_mask_token ''A?'' = Inl (ValueError ''invalid literal for int() with base 16'') \<and>
   bytes_mask_token ''?5'' = Inl (ValueError ''invalid literal for int() with base 16'')"
proof -
  have d: "hex_digit CHR ''A'' = Some 10" "hex_digit CHR ''5'' = Some 5"
    by (simp_all add: hex_digit_def)
  note t = token_wildcards_by_script
    [where ?c1.0 = "CHR ''A''" and h = 10 and ?c2.0 = "CHR ''5''" and l = 5]
  from t [where a = "0xA0"] t [where a = "0xAF"] t [where a = "0x9F"] t [where a = "0xB0"]
    t [where a = "0x35"] t [where a = "0x36"] t [where a = "0xA5"] t [where a = "0xA4"] d
  show ?thesis by simp
qed

theorem bps_rejects_nibble_wildcard:
  "aob_to_bytes_mask ''A?'' = Inl (ValueError ''invalid literal for int() with base 16'')"
  by code_simp

section \<open>Guards, overlapping sites and the original image\<close>

text \<open>
  Claim C3, as the code has it. In make_bps.py a guard that parses is compared with the
  bytes of the original image at the resolved offset, by the comparison loop of the scan
  over the bytes that the slice yields: at an offset that is not negative the guard passes
  exactly when the bytes that the image has there agree with the pattern wherever the
  mask is not zero, so that a guard reaching past the end of the image is compared on its
  leading bytes only; when the guard window lies inside the image this is the masked
  match. When the comparison fails the hook leaves the state as it was (no trampoline, no
  detour, no record) and the loop goes on with the next hook. In make_inline.py the guard
  is parsed but never compared: whenever the assembler returns its 8 bytes, a target that
  resolves to an offset that is not negative and whose guard parses gets its trampoline
  (the stolen bytes and the jump back, written at the cursor), in patch mode its detour at
  the site, and its row, whose guard field is the snapshot of the original image's bytes at
  the site, as long as the guard pattern.
\<close>

theorem guard_mismatch_skips_in_bps_snapshot_in_inline:
  "(bps_site buf spec = Inr (Some s) \<and> bps_guard_ok buf (spec_guard spec) s = Inr False \<longrightarrow>
      bps_hook kb kd buf bst (nm, spec) = Inr bst \<and>
      bps_hooks kb kd buf bst ((nm, spec) # hs) = bps_hooks kb kd buf bst hs) \<and>
   (spec_guard spec = Some g \<and> g \<noteq> [] \<and> aob_to_bytes_mask g = Inr (bpat, bmsk) \<longrightarrow>
      bps_guard_ok buf (spec_guard spec) s =
        Inr (window_eq (py_slice buf s (s + int (length bpat))) bpat bmsk)) \<and>
   (spec_guard spec = Some g \<and> g \<noteq> [] \<and> aob_to_bytes_mask g = Inr (bpat, bmsk) \<and> 0 \<le> s \<longrightarrow>
      bps_guard_ok buf (spec_guard spec) s = Inr (guard_agrees buf bpat bmsk (nat s))) \<and>
   (spec_guard spec = Some g \<and> g \<noteq> [] \<and> aob_to_bytes_mask g = Inr (bpat, bmsk) \<and> 0 \<le> s \<and>
    nat s + length bpat \<le> length buf \<longrightarrow>
      bps_guard_ok buf (spec_guard spec) s = Inr (masked_match buf bpat bmsk (nat s))) \<and>
   (bps_site buf spec = Inr (Some s) \<and>
    spec_guard spec = Some g \<and> g \<noteq> [] \<and> aob_to_bytes_mask g = Inr (bpat, bmsk) \<and> 0 \<le> s \<and>
    nat s + length bpat \<le> length buf \<and> \<not> masked_match buf bpat bmsk (nat s) \<longrightarrow>
      bps_hook kb kd buf bst (nm, spec) = Inr bst \<and>
      bps_hooks kb kd buf bst ((nm, spec) # hs) = bps_hooks kb kd buf bst hs) \<and>
   (bps_site buf spec = Inr (Some s) \<and>
    spec_guard spec = Some g \<and> g \<noteq> [] \<and> aob_to_bytes_mask g = Inr (bpat, bmsk) \<and> 0 \<le> s \<and>
    \<not> guard_agrees buf bpat bmsk (nat s) \<longrightarrow>
      bps_hook kb kd buf bst (nm, spec) = Inr bst \<and>
      bps_hooks kb kd buf bst ((nm, spec) # hs) = bps_hooks kb kd buf bst hs) \<and>
   (assembles ks 8 \<and> resolve_site buf t (spec_aob spec) = Inr (Some s) \<and> 0 \<le> s \<and>
    spec_guard spec = Some g \<and> g \<noteq> [] \<and> aob_to_pat_mask g = Inr (gpat, gmsk) \<longrightarrow>
      (\<exists>st' j d. inline_target ks ps buf nm spec st t = Inr st' \<and>
         i_rows st' = i_rows st @
           [\<lparr>name = nm, site_off = s, tramp_off = i_cur st,
             guard = py_slice buf s (s + int (length gpat)), guard_len = length gpat\<rparr>] \<and>
         i_cur st' = i_cur st + per_tramp \<and>
         asm_abs_jump_va ks (CODE_BASE + (s + STOLEN_SIZE))
           (i_cur st + int (length (steal (i_mod st) s))) = Inr j \<and>
         asm_abs_jump_va ks (CODE_BASE + i_cur st) s = Inr d \<and>
         i_mod st' =
           (if ps
            then py_set_slice
                   (py_set_slice (i_mod st) (i_cur st)
                      (i_cur st + int (length (steal (i_mod st) s @ j))) (steal (i_mod st) s @ j))
                   s (s + STOLEN_SIZE) d
            else py_set_slice (i_mod st) (i_cur st)
                   (i_cur st + int (length (steal (i_mod st) s @ j))) (steal (i_mod st) s @ j))))"
proof -
  have c1: "bps_site buf spec = Inr (Some s) \<and> bps_guard_ok buf (spec_guard spec) s = Inr False \<longrightarrow>
      bps_hook kb kd buf bst (nm, spec) = Inr bst \<and>
      bps_hooks kb kd buf bst ((nm, spec) # hs) = bps_hooks kb kd buf bst hs"
    using bps_hook_guard_mismatch [of buf spec s kb kd bst nm] by simp
  have c2: "spec_guard spec = Some g \<and> g \<noteq> [] \<and> aob_to_bytes_mask g = Inr (bpat, bmsk) \<longrightarrow>
      bps_guard_ok buf (spec_guard spec) s =
        Inr (window_eq (py_slice buf s (s + int (length bpat))) bpat bmsk)"
    using bps_guard_ok_compare [of spec g bpat bmsk buf s] by blast
  have c3: "spec_guard spec = Some g \<and> g \<noteq> [] \<and> aob_to_bytes_mask g = Inr (bpat, bmsk) \<and> 0 \<le> s \<longrightarrow>
      bps_guard_ok buf (spec_guard spec) s = Inr (guard_agrees buf bpat bmsk (nat s))"
    using bps_guard_ok_agrees [of spec g bpat bmsk s buf] by blast
  have c4: "spec_guard spec = Some g \<and> g \<noteq> [] \<and> aob_to_bytes_mask g = Inr (bpat, bmsk) \<and> 0 \<le> s \<and>
    nat s + length bpat \<le> length buf \<longrightarrow>
      bps_guard_ok buf (spec_guard spec) s = Inr (masked_match buf bpat bmsk (nat s))"
    using bps_guard_ok_masked [of spec g bpat bmsk s buf] by blast
  have c5: "bps_site buf spec = Inr (Some s) \<and>
    spec_guard spec = Some g \<and> g \<noteq> [] \<and> aob_to_bytes_mask g = Inr (bpat, bmsk) \<and> 0 \<le> s \<and>
    nat s + length bpat \<le> length buf \<and> \<not> masked_match buf bpat bmsk (nat s) \<longrightarrow>
      bps_hook kb kd buf bst (nm, spec) = Inr bst \<and>
      bps_hooks kb kd buf bst ((nm, spec) # hs) = bps_hooks kb kd buf bst hs"
    using c1 c4 by simp
  have c6: "bps_site buf spec = Inr (Some s) \<and>
    spec_guard spec = Some g \<and> g \<noteq> [] \<and> aob_to_bytes_mask g = Inr (bpat, bmsk) \<and> 0 \<le> s \<and>
    \<not> guard_agrees buf bpat bmsk (nat s) \<longrightarrow>
      bps_hook kb kd buf bst (nm, spec) = Inr bst \<and>
      bps_hooks kb kd buf bst ((nm, spec) # hs) = bps_hooks kb kd buf bst hs"
    using c1 c3 by simp
  have c7: "assembles ks 8 \<and> resolve_site buf t (spec_aob spec) = Inr (Some s) \<and> 0 \<le> s \<and>
    spec_guard spec = Some g \<and> g \<noteq> [] \<and> aob_to_pat_mask g = Inr (gpat, gmsk) \<longrightarrow>
      (\<exists>st' j d. inline_target ks ps buf nm spec st t = Inr st' \<and>
         i_rows st' = i_rows st @
           [\<lparr>name = nm, site_off = s, tramp_off = i_cur st,
             guard = py_slice buf s (s + int (length gpat)), guard_len = length gpat\<rparr>] \<and>
         i_cur st' = i_cur st + per_tramp \<and>
         asm_abs_jump_va ks (CODE_BASE + (s + STOLEN_SIZE))
           (i_cur st + int (length (steal (i_mod st) s))) = Inr j \<and>
         asm_abs_jump_va ks (CODE_BASE + i_cur st) s = Inr d \<and>
         i_mod st' =
           (if ps
            then py_set_slice
                   (py_set_slice (i_mod st) (i_cur st)
                      (i_cur st + int (length (steal (i_mod st) s @ j))) (steal (i_mod st) s @ j))
                   s (s + STOLEN_SIZE) d
            else py_set_slice (i_mod st) (i_cur st)
                   (i_cur st + int (length (steal (i_mod st) s @ j))) (steal (i_mod st) s @ j)))"
    using inline_target_guard_ignored_mod [of ks buf t spec s g gpat gmsk ps nm st] by blast
  show ?thesis
    by (intro conjI) (rule c1, rule c2, rule c3, rule c4, rule c5, rule c6, rule c7)
qed

theorem guard_mismatch_skips_in_bps_snapshot_in_inline_witness:
  "bps_site ten_bytes guarded_spec = Inr (Some 0) \<and>
   aob_to_bytes_mask ''FF'' = Inr ([0xFF], [0xFF]) \<and>
   \<not> masked_match ten_bytes [0xFF] [0xFF] 0 \<and>
   bps_guard_ok ten_bytes (spec_guard guarded_spec) 0 = Inr False \<and>
   bps_hook ks_branch_stub ks_detour_zero ten_bytes
     \<lparr>b_mod = ten_bytes, b_arena_cur = 0, b_hook_records = []\<rparr> (''g'', guarded_spec) =
     Inr \<lparr>b_mod = ten_bytes, b_arena_cur = 0, b_hook_records = []\<rparr> \<and>
   aob_to_bytes_mask ''0A DE AD'' = Inr ([0x0A, 0xDE, 0xAD], [0xFF, 0xFF, 0xFF]) \<and>
   bps_guard_ok ten_bytes (spec_guard tail_guard_spec) 9 = Inr True \<and>
   guard_agrees ten_bytes [0x0A, 0xDE, 0xAD] [0xFF, 0xFF, 0xFF] 9 \<and>
   \<not> masked_match ten_bytes [0x0A, 0xDE, 0xAD] [0xFF, 0xFF, 0xFF] 9 \<and>
   aob_to_pat_mask ''FF'' = Inr ([0xFF], [0xFF]) \<and>
   \<not> window_ok (py_slice ten_bytes 0 1) [0xFF] [0xFF] \<and>
   (\<exists>st'. inline_target ks_arm True ten_bytes ''g'' guarded_spec
            \<lparr>i_mod = ten_bytes, i_cur = 10, i_rows = [], i_hook_ids = []\<rparr> (Addr 0) = Inr st' \<and>
          i_rows st' = [\<lparr>name = ''g'', site_off = 0, tramp_off = 10, guard = [1], guard_len = 1\<rparr>] \<and>
          i_mod st' =
            [0x04, 0xF0, 0x1F, 0xE5, 0x0A, 0x00, 0x10, 0x00, 9, 10] @
            [1, 2, 3, 4, 5, 6, 7, 8, 0x04, 0xF0, 0x1F, 0xE5, 0x08, 0x00, 0x10, 0x00])"
proof -
  let ?b0 = "\<lparr>b_mod = ten_bytes, b_arena_cur = 0, b_hook_records = []\<rparr>"
  let ?i0 = "\<lparr>i_mod = ten_bytes, i_cur = 10, i_rows = [], i_hook_ids = []\<rparr>"
  let ?J = "[0x04, 0xF0, 0x1F, 0xE5, 0x08, 0x00, 0x10, 0x00] :: byte list"
  let ?D = "[0x04, 0xF0, 0x1F, 0xE5, 0x0A, 0x00, 0x10, 0x00] :: byte list"
  have b1: "bps_site ten_bytes guarded_spec = Inr (Some 0)" by code_simp
  have bp: "aob_to_bytes_mask ''FF'' = Inr ([0xFF], [0xFF])" by code_simp
  have nm: "\<not> masked_match ten_bytes [0xFF] [0xFF] 0"
    by (simp add: masked_match_def ten_bytes_def)
  have g: "spec_guard guarded_spec = Some ''FF''" "''FF'' \<noteq> []"
    by (simp_all add: guarded_spec_def)
  have fit: "nat 0 + length [0xFF :: byte] \<le> length ten_bytes" by (simp add: ten_bytes_def)
  note w = guard_mismatch_skips_in_bps_snapshot_in_inline
    [where buf = ten_bytes and spec = guarded_spec and s = 0 and kb = ks_branch_stub
       and kd = ks_detour_zero and nm = "''g''" and hs = "[]" and g = "''FF''"
       and bst = ?b0 and ks = ks_arm and t = "Addr 0" and gpat = "[0xFF]" and gmsk = "[0xFF]"
       and ps = True and st = ?i0 and bpat = "[0xFF]" and bmsk = "[0xFF]"]
  have z: "(0::int) \<le> 0" by simp
  have nm': "\<not> masked_match ten_bytes [0xFF] [0xFF] (nat 0)" using nm by simp
  from w g bp z fit have "bps_guard_ok ten_bytes (spec_guard guarded_spec) 0 =
      Inr (masked_match ten_bytes [0xFF] [0xFF] (nat 0))"
    by blast
  then have b2: "bps_guard_ok ten_bytes (spec_guard guarded_spec) 0 = Inr False"
    using nm by simp
  from w b1 g bp z fit nm' have b3: "bps_hook ks_branch_stub ks_detour_zero ten_bytes ?b0 (''g'', guarded_spec) =
     Inr ?b0"
    by blast
  have tp: "aob_to_bytes_mask ''0A DE AD'' = Inr ([0x0A, 0xDE, 0xAD], [0xFF, 0xFF, 0xFF])"
    by code_simp
  have tg: "spec_guard tail_guard_spec = Some ''0A DE AD''" "''0A DE AD'' \<noteq> []"
    by (simp_all add: tail_guard_spec_def)
  have t1: "bps_guard_ok ten_bytes (spec_guard tail_guard_spec) 9 = Inr True" by code_simp
  have z9: "(0::int) \<le> 9" by simp
  from guard_mismatch_skips_in_bps_snapshot_in_inline
    [where buf = ten_bytes and spec = tail_guard_spec and s = 9 and g = "''0A DE AD''"
       and bpat = "[0x0A, 0xDE, 0xAD]" and bmsk = "[0xFF, 0xFF, 0xFF]"] tg tp z9
  have "bps_guard_ok ten_bytes (spec_guard tail_guard_spec) 9 =
      Inr (guard_agrees ten_bytes [0x0A, 0xDE, 0xAD] [0xFF, 0xFF, 0xFF] (nat 9))"
    by blast
  with t1 have t2: "guard_agrees ten_bytes [0x0A, 0xDE, 0xAD] [0xFF, 0xFF, 0xFF] 9" by simp
  have t3: "\<not> masked_match ten_bytes [0x0A, 0xDE, 0xAD] [0xFF, 0xFF, 0xFF] 9"
    by (simp add: masked_match_def ten_bytes_def)
  have p: "aob_to_pat_mask ''FF'' = Inr ([0xFF], [0xFF])" by code_simp
  have m: "\<not> window_ok (py_slice ten_bytes 0 1) [0xFF] [0xFF]" by code_simp
  have sl: "py_slice ten_bytes 0 1 = [1]" by code_simp
  have r: "resolve_site ten_bytes (Addr 0) (spec_aob guarded_spec) = Inr (Some 0)"
    by (simp add: resolve_site_def)
  from w assembles_ks_arm r z g p obtain st' j d where
    i1: "inline_target ks_arm True ten_bytes ''g'' guarded_spec ?i0 (Addr 0) = Inr st'"
    and i2: "i_rows st' = i_rows ?i0 @
           [\<lparr>name = ''g'', site_off = 0, tramp_off = i_cur ?i0,
             guard = py_slice ten_bytes 0 (0 + int (length [0xFF :: byte])),
             guard_len = length [0xFF :: byte]\<rparr>]"
    and j: "asm_abs_jump_va ks_arm (CODE_BASE + (0 + STOLEN_SIZE))
           (i_cur ?i0 + int (length (steal (i_mod ?i0) 0))) = Inr j"
    and d: "asm_abs_jump_va ks_arm (CODE_BASE + i_cur ?i0) 0 = Inr d"
    and i3: "i_mod st' =
           (if True
            then py_set_slice
                   (py_set_slice (i_mod ?i0) (i_cur ?i0)
                      (i_cur ?i0 + int (length (steal (i_mod ?i0) 0 @ j))) (steal (i_mod ?i0) 0 @ j))
                   0 (0 + STOLEN_SIZE) d
            else py_set_slice (i_mod ?i0) (i_cur ?i0)
                   (i_cur ?i0 + int (length (steal (i_mod ?i0) 0 @ j))) (steal (i_mod ?i0) 0 @ j))"
    by blast
  have "asm_abs_jump_va ks_arm (CODE_BASE + (0 + STOLEN_SIZE))
           (i_cur ?i0 + int (length (steal (i_mod ?i0) 0))) = Inr ?J"
    by code_simp
  with j have j': "j = ?J" by simp
  have "asm_abs_jump_va ks_arm (CODE_BASE + i_cur ?i0) 0 = Inr ?D" by code_simp
  with d have d': "d = ?D" by simp
  have ev: "py_set_slice
              (py_set_slice ten_bytes 10 (10 + int (length (steal ten_bytes 0 @ ?J)))
                 (steal ten_bytes 0 @ ?J))
              0 (0 + STOLEN_SIZE) ?D =
            [0x04, 0xF0, 0x1F, 0xE5, 0x0A, 0x00, 0x10, 0x00, 9, 10] @
            [1, 2, 3, 4, 5, 6, 7, 8, 0x04, 0xF0, 0x1F, 0xE5, 0x08, 0x00, 0x10, 0x00]"
    by code_simp
  from i3 have k3: "i_mod st' =
            [0x04, 0xF0, 0x1F, 0xE5, 0x0A, 0x00, 0x10, 0x00, 9, 10] @
            [1, 2, 3, 4, 5, 6, 7, 8, 0x04, 0xF0, 0x1F, 0xE5, 0x08, 0x00, 0x10, 0x00]"
    unfolding j' d' using ev by simp
  from i2 have k2: "i_rows st' =
      [\<lparr>name = ''g'', site_off = 0, tramp_off = 10, guard = [1], guard_len = 1\<rparr>]"
    by (simp add: sl)
  from i1 k2 k3 have e: "\<exists>st'. inline_target ks_arm True ten_bytes ''g'' guarded_spec ?i0 (Addr 0) = Inr st' \<and>
          i_rows st' = [\<lparr>name = ''g'', site_off = 0, tramp_off = 10, guard = [1], guard_len = 1\<rparr>] \<and>
          i_mod st' =
            [0x04, 0xF0, 0x1F, 0xE5, 0x0A, 0x00, 0x10, 0x00, 9, 10] @
            [1, 2, 3, 4, 5, 6, 7, 8, 0x04, 0xF0, 0x1F, 0xE5, 0x08, 0x00, 0x10, 0x00]"
    by (intro exI [of _ st'] conjI)
  from b1 bp nm b2 b3 tp t1 t2 t3 p m e show ?thesis by (simp only: simp_thms)
qed

theorem inline_applies_hook_despite_guard_mismatch:
  "aob_to_pat_mask ''FF'' = Inr ([0xFF], [0xFF]) \<and>
   \<not> window_ok (py_slice ten_bytes 0 1) [0xFF] [0xFF] \<and>
   inline_main ks_arm True ten_bytes guarded_hook =
     Inr ([0x04, 0xF0, 0x1F, 0xE5, 0x0A, 0x00, 0x10, 0x00, 9, 10] @
          [1, 2, 3, 4, 5, 6, 7, 8, 0x04, 0xF0, 0x1F, 0xE5, 0x08, 0x00, 0x10, 0x00] @
          replicate 80 0,
          \<lparr>HookId = [''g''], kNumHooks = 1,
           kHooks = [\<lparr>entry_name = ''g'', entry_site_off = 0, entry_tramp_off = 10,
                      entry_guard = [1, 0, 0, 0, 0, 0, 0, 0], entry_guard_len = 1\<rparr>]\<rparr>)"
proof -
  have p: "aob_to_pat_mask ''FF'' = Inr ([0xFF], [0xFF])" by code_simp
  have m: "\<not> window_ok (py_slice ten_bytes 0 1) [0xFF] [0xFF]" by code_simp
  have ar: "inline_arena ten_bytes guarded_hook = (10, ten_bytes @ replicate 96 0)"
    by code_simp
  have run: "inline_hooks ks_arm True ten_bytes
      \<lparr>i_mod = ten_bytes @ replicate 96 0, i_cur = 10, i_rows = [], i_hook_ids = []\<rparr>
      guarded_hook =
      Inr \<lparr>i_mod = [0x04, 0xF0, 0x1F, 0xE5, 0x0A, 0x00, 0x10, 0x00, 9, 10] @
          [1, 2, 3, 4, 5, 6, 7, 8, 0x04, 0xF0, 0x1F, 0xE5, 0x08, 0x00, 0x10, 0x00] @
          replicate 80 0, i_cur = 106,
           i_rows = [\<lparr>name = ''g'', site_off = 0, tramp_off = 10, guard = [1], guard_len = 1\<rparr>],
           i_hook_ids = [''g'']\<rparr>"
    by code_simp
  have tb: "emit_header [\<lparr>name = ''g'', site_off = 0, tramp_off = 10, guard = [1], guard_len = 1\<rparr>]
              [''g''] =
          \<lparr>HookId = [''g''], kNumHooks = 1,
           kHooks = [\<lparr>entry_name = ''g'', entry_site_off = 0, entry_tramp_off = 10,
                      entry_guard = [1, 0, 0, 0, 0, 0, 0, 0], entry_guard_len = 1\<rparr>]\<rparr>"
    by code_simp
  from inline_main_unfold [OF ar run] tb p m show ?thesis by simp
qed

text \<open>
  Claim C4, as the code has it. Neither script checks for overlapping stolen windows: the
  sites of the emitted records are exactly the sites that the targets of the address map
  resolve to, in order, each target taken alone (the accepted sites of two address maps
  put together are those of the first followed by those of the second), and a run of
  make_inline.py whose patterns and guards parse and whose assembler returns its 8 bytes
  always ends well, also when two of its sites are the same.
\<close>

theorem no_overlap_check_every_resolved_site_accepted:
  "(inline_main ks ps buf hooks = Inr (out, tbl) \<longrightarrow>
      map entry_site_off (kHooks tbl) = map (\<lambda>x. fst (snd x)) (accepted_sites buf hooks)) \<and>
   (bps_hooks kb kd buf bst hooks = Inr bst' \<longrightarrow>
      map rec_site_off (b_hook_records bst') =
        map rec_site_off (b_hook_records bst) @ map snd (accepted_bps_sites buf hooks)) \<and>
   accepted_sites buf (hs1 @ hs2) = accepted_sites buf hs1 @ accepted_sites buf hs2 \<and>
   accepted_bps_sites buf (hs1 @ hs2) = accepted_bps_sites buf hs1 @ accepted_bps_sites buf hs2 \<and>
   (assembles ks 8 \<and> \<not> map_raises buf hooks \<longrightarrow>
      (\<exists>out tbl. inline_main ks ps buf hooks = Inr (out, tbl)))"
proof -
  have a: "map entry_site_off (kHooks tbl) = map (\<lambda>x. fst (snd x)) (accepted_sites buf hooks)"
    if "inline_main ks ps buf hooks = Inr (out, tbl)"
    using inline_main_table [OF that]
      site_rows_from [of "fst (inline_arena buf hooks)" "accepted_sites buf hooks"]
    by (simp add: emit_header_def o_def)
  have b: "map rec_site_off (b_hook_records bst') =
        map rec_site_off (b_hook_records bst) @ map snd (accepted_bps_sites buf hooks)"
    if "bps_hooks kb kd buf bst hooks = Inr bst'"
    using bps_hooks_Inr [OF that] by (simp add: site_records_from)
  from a b inline_main_ok [of ks buf hooks ps] show ?thesis
    by (simp add: accepted_sites_append accepted_bps_sites_append)
qed

theorem no_overlap_check_every_resolved_site_accepted_witness:
  "assembles ks_arm 8 \<and> \<not> map_raises ten_bytes hook_same_site_twice \<and>
   accepted_sites ten_bytes hook_same_site_twice = [(''h'', 0, 0, []), (''h'', 0, 0, [])] \<and>
   (\<exists>out tbl. inline_main ks_arm True ten_bytes hook_same_site_twice = Inr (out, tbl) \<and>
      map entry_site_off (kHooks tbl) = [0, 0]) \<and>
   accepted_bps_sites ten_bytes guarded_hook = [] \<and>
   (\<exists>bst'. bps_hooks ks_branch_stub ks_detour_zero ten_bytes
       \<lparr>b_mod = ten_bytes, b_arena_cur = 0, b_hook_records = []\<rparr> guarded_hook = Inr bst' \<and>
       map rec_site_off (b_hook_records bst') = [])"
proof -
  have n: "\<not> map_raises ten_bytes hook_same_site_twice" by code_simp
  have a: "accepted_sites ten_bytes hook_same_site_twice = [(''h'', 0, 0, []), (''h'', 0, 0, [])]"
    by code_simp
  have c: "accepted_bps_sites ten_bytes guarded_hook = []" by code_simp
  note w = no_overlap_check_every_resolved_site_accepted
    [where ks = ks_arm and ps = True and buf = ten_bytes and hooks = hook_same_site_twice]
  from w assembles_ks_arm n obtain out tbl where
    r: "inline_main ks_arm True ten_bytes hook_same_site_twice = Inr (out, tbl)" by blast
  with w [where out = out and tbl = tbl] a
  have s: "map entry_site_off (kHooks tbl) = [0, 0]" by simp
  have "\<not> isl (bps_hooks ks_branch_stub ks_detour_zero ten_bytes
       \<lparr>b_mod = ten_bytes, b_arena_cur = 0, b_hook_records = []\<rparr> guarded_hook)"
    by code_simp
  then obtain bst' where
    br: "bps_hooks ks_branch_stub ks_detour_zero ten_bytes
       \<lparr>b_mod = ten_bytes, b_arena_cur = 0, b_hook_records = []\<rparr> guarded_hook = Inr bst'"
    by (cases "bps_hooks ks_branch_stub ks_detour_zero ten_bytes
       \<lparr>b_mod = ten_bytes, b_arena_cur = 0, b_hook_records = []\<rparr> guarded_hook") auto
  with no_overlap_check_every_resolved_site_accepted
    [where kb = ks_branch_stub and kd = ks_detour_zero and buf = ten_bytes
       and bst = "\<lparr>b_mod = ten_bytes, b_arena_cur = 0, b_hook_records = []\<rparr>"
       and hooks = guarded_hook and bst' = bst'] c
  have "map rec_site_off (b_hook_records bst') = []" by simp
  with br have e2: "\<exists>bst'. bps_hooks ks_branch_stub ks_detour_zero ten_bytes
       \<lparr>b_mod = ten_bytes, b_arena_cur = 0, b_hook_records = []\<rparr> guarded_hook = Inr bst' \<and>
       map rec_site_off (b_hook_records bst') = []"
    by (intro exI [of _ bst'] conjI)
  from r s have e1: "\<exists>out tbl. inline_main ks_arm True ten_bytes hook_same_site_twice = Inr (out, tbl) \<and>
      map entry_site_off (kHooks tbl) = [0, 0]"
    by (intro exI [of _ out] exI [of _ tbl] conjI)
  from e1 e2 a c n assembles_ks_arm show ?thesis by (simp only: simp_thms)
qed

theorem same_site_accepted_twice:
  "inline_main ks_arm True ten_bytes hook_same_site_twice = Inr (twice_out, twice_table) \<and>
   kNumHooks twice_table = 2 \<and>
   map entry_site_off (kHooks twice_table) = [0, 0]"
  using same_site_run by (simp add: twice_table_def)

text \<open>
  Claim C9. The pattern scans and the guard reads of both scripts use the original image
  only: the names, sites, guard lengths and guard snapshots of the rows that a run of the
  loop adds are those read off the original image, so two runs over the same original
  image and address map that end well add the same ones, whatever mutated buffer, cursor,
  assembler and patch mode each run has; the same holds for the names and sites of the
  records of make_bps.py.
\<close>

theorem sites_and_guards_read_from_original_image:
  "(inline_hooks ks ps buf st hooks = Inr st' \<longrightarrow>
      map (\<lambda>r. (name r, site_off r, guard_len r, guard r))
        (drop (length (i_rows st)) (i_rows st')) = accepted_sites buf hooks) \<and>
   (inline_hooks ks1 ps1 buf st1 hooks = Inr st1' \<and> inline_hooks ks2 ps2 buf st2 hooks = Inr st2' \<longrightarrow>
      map (\<lambda>r. (name r, site_off r, guard_len r, guard r))
        (drop (length (i_rows st1)) (i_rows st1')) =
      map (\<lambda>r. (name r, site_off r, guard_len r, guard r))
        (drop (length (i_rows st2)) (i_rows st2'))) \<and>
   (bps_hooks kb kd buf bst hooks = Inr bst' \<longrightarrow>
      map (\<lambda>r. (rec_name r, rec_site_off r))
        (drop (length (b_hook_records bst)) (b_hook_records bst')) = accepted_bps_sites buf hooks) \<and>
   (bps_hooks kb1 kd1 buf bst1 hooks = Inr bst1' \<and> bps_hooks kb2 kd2 buf bst2 hooks = Inr bst2' \<longrightarrow>
      map (\<lambda>r. (rec_name r, rec_site_off r))
        (drop (length (b_hook_records bst1)) (b_hook_records bst1')) =
      map (\<lambda>r. (rec_name r, rec_site_off r))
        (drop (length (b_hook_records bst2)) (b_hook_records bst2')))"
proof -
  have a: "map (\<lambda>r. (name r, site_off r, guard_len r, guard r))
        (drop (length (i_rows st1)) (i_rows st1')) =
      map (\<lambda>r. (name r, site_off r, guard_len r, guard r))
        (drop (length (i_rows st2)) (i_rows st2'))"
    if "inline_hooks ks1 ps1 buf st1 hooks = Inr st1'" "inline_hooks ks2 ps2 buf st2 hooks = Inr st2'"
    using inline_new_rows [OF that(1)] inline_new_rows [OF that(2)] by simp
  have b: "map (\<lambda>r. (rec_name r, rec_site_off r))
        (drop (length (b_hook_records bst1)) (b_hook_records bst1')) =
      map (\<lambda>r. (rec_name r, rec_site_off r))
        (drop (length (b_hook_records bst2)) (b_hook_records bst2'))"
    if "bps_hooks kb1 kd1 buf bst1 hooks = Inr bst1'" "bps_hooks kb2 kd2 buf bst2 hooks = Inr bst2'"
    using bps_new_records [OF that(1)] bps_new_records [OF that(2)] by simp
  from a b inline_new_rows [of ks ps buf st hooks st'] bps_new_records [of kb kd buf bst hooks bst']
  show ?thesis by blast
qed

theorem sites_and_guards_read_from_original_image_witness:
  "(\<exists>s1 s2.
      inline_hooks ks_arm True ten_bytes
        \<lparr>i_mod = ten_bytes, i_cur = 10, i_rows = [], i_hook_ids = []\<rparr> pattern_hook = Inr s1 \<and>
      inline_hooks ks_arm True ten_bytes
        \<lparr>i_mod = replicate 10 0xEE, i_cur = 10, i_rows = [], i_hook_ids = []\<rparr> pattern_hook = Inr s2 \<and>
      map (\<lambda>r. (name r, site_off r, guard_len r, guard r)) (i_rows s1) = [(''p'', 1, 1, [2])] \<and>
      map (\<lambda>r. (name r, site_off r, guard_len r, guard r)) (i_rows s2) = [(''p'', 1, 1, [2])]) \<and>
   (\<exists>b1 b2.
      bps_hooks ks_branch_stub ks_detour_zero ten_bytes
        \<lparr>b_mod = ten_bytes, b_arena_cur = 10, b_hook_records = []\<rparr> pattern_hook = Inr b1 \<and>
      bps_hooks ks_branch_stub ks_detour_zero ten_bytes
        \<lparr>b_mod = replicate 10 0xEE, b_arena_cur = 10, b_hook_records = []\<rparr> pattern_hook = Inr b2 \<and>
      map (\<lambda>r. (rec_name r, rec_site_off r)) (b_hook_records b1) = [(''p'', 1)] \<and>
      map (\<lambda>r. (rec_name r, rec_site_off r)) (b_hook_records b2) = [(''p'', 1)])"
proof -
  let ?i1 = "\<lparr>i_mod = ten_bytes, i_cur = 10, i_rows = [], i_hook_ids = []\<rparr>"
  let ?i2 = "\<lparr>i_mod = replicate 10 (0xEE :: byte), i_cur = 10, i_rows = [], i_hook_ids = []\<rparr>"
  let ?b1 = "\<lparr>b_mod = ten_bytes, b_arena_cur = 10, b_hook_records = []\<rparr>"
  let ?b2 = "\<lparr>b_mod = replicate 10 (0xEE :: byte), b_arena_cur = 10, b_hook_records = []\<rparr>"
  have n: "\<not> map_raises ten_bytes pattern_hook" by code_simp
  have a: "accepted_sites ten_bytes pattern_hook = [(''p'', 1, 1, [2])]" by code_simp
  have c: "accepted_bps_sites ten_bytes pattern_hook = [(''p'', 1)]" by code_simp
  from inline_hooks_ok [OF assembles_ks_arm n] obtain s1 where
    r1: "inline_hooks ks_arm True ten_bytes ?i1 pattern_hook = Inr s1" by blast
  from inline_hooks_ok [OF assembles_ks_arm n] obtain s2 where
    r2: "inline_hooks ks_arm True ten_bytes ?i2 pattern_hook = Inr s2" by blast
  from sites_and_guards_read_from_original_image
    [where ks = ks_arm and ps = True and buf = ten_bytes and st = ?i1 and hooks = pattern_hook
       and st' = s1] r1 a
  have k1: "map (\<lambda>r. (name r, site_off r, guard_len r, guard r)) (i_rows s1) = [(''p'', 1, 1, [2])]"
    by simp
  from sites_and_guards_read_from_original_image
    [where ks = ks_arm and ps = True and buf = ten_bytes and st = ?i2 and hooks = pattern_hook
       and st' = s2] r2 a
  have k2: "map (\<lambda>r. (name r, site_off r, guard_len r, guard r)) (i_rows s2) = [(''p'', 1, 1, [2])]"
    by simp
  have "\<not> isl (bps_hooks ks_branch_stub ks_detour_zero ten_bytes ?b1 pattern_hook)"
    by code_simp
  then obtain b1 where
    q1: "bps_hooks ks_branch_stub ks_detour_zero ten_bytes ?b1 pattern_hook = Inr b1"
    by (cases "bps_hooks ks_branch_stub ks_detour_zero ten_bytes ?b1 pattern_hook") auto
  have "\<not> isl (bps_hooks ks_branch_stub ks_detour_zero ten_bytes ?b2 pattern_hook)"
    by code_simp
  then obtain b2 where
    q2: "bps_hooks ks_branch_stub ks_detour_zero ten_bytes ?b2 pattern_hook = Inr b2"
    by (cases "bps_hooks ks_branch_stub ks_detour_zero ten_bytes ?b2 pattern_hook") auto
  from sites_and_guards_read_from_original_image
    [where kb = ks_branch_stub and kd = ks_detour_zero and buf = ten_bytes and bst = ?b1
       and hooks = pattern_hook and bst' = b1] q1 c
  have j1: "map (\<lambda>r. (rec_name r, rec_site_off r)) (b_hook_records b1) = [(''p'', 1)]"
    by simp
  from sites_and_guards_read_from_original_image
    [where kb = ks_branch_stub and kd = ks_detour_zero and buf = ten_bytes and bst = ?b2
       and hooks = pattern_hook and bst' = b2] q2 c
  have j2: "map (\<lambda>r. (rec_name r, rec_site_off r)) (b_hook_records b2) = [(''p'', 1)]"
    by simp
  from r1 r2 k1 k2 have e1: "\<exists>s1 s2.
      inline_hooks ks_arm True ten_bytes ?i1 pattern_hook = Inr s1 \<and>
      inline_hooks ks_arm True ten_bytes ?i2 pattern_hook = Inr s2 \<and>
      map (\<lambda>r. (name r, site_off r, guard_len r, guard r)) (i_rows s1) = [(''p'', 1, 1, [2])] \<and>
      map (\<lambda>r. (name r, site_off r, guard_len r, guard r)) (i_rows s2) = [(''p'', 1, 1, [2])]"
    by (intro exI [of _ s1] exI [of _ s2] conjI)
  from q1 q2 j1 j2 have e2: "\<exists>b1 b2.
      bps_hooks ks_branch_stub ks_detour_zero ten_bytes ?b1 pattern_hook = Inr b1 \<and>
      bps_hooks ks_branch_stub ks_detour_zero ten_bytes ?b2 pattern_hook = Inr b2 \<and>
      map (\<lambda>r. (rec_name r, rec_site_off r)) (b_hook_records b1) = [(''p'', 1)] \<and>
      map (\<lambda>r. (rec_name r, rec_site_off r)) (b_hook_records b2) = [(''p'', 1)]"
    by (intro exI [of _ b1] exI [of _ b2] conjI)
  from e1 e2 show ?thesis by (rule conjI)
qed

section \<open>Stolen bytes\<close>

text \<open>
  Claim C1, as the code has it. Both scripts read the stolen bytes from the mutable
  buffer as it stands when the site is processed: the step of an accepted site builds its
  trampoline from the bytes of the mutable buffer at the site (8 in make_inline.py, 10 in
  make_bps.py), writes it at the cursor and then, in make_bps.py always and in
  make_inline.py in patch mode, writes the detour at the site. When the cursor lies in the
  buffer and the site window does not overlap the stolen bytes of the slot (and, in
  make_bps.py, the site is not negative), the slot of the new buffer starts with the bytes
  that the old buffer had at the site. They are the original image's bytes at the site
  whenever the window lies inside the original image and the buffer agrees with the
  original image on it. The buffer starts as the original image (with zero bytes appended
  when make_inline.py grows it); a step of make_inline.py at a cursor that is not negative
  changes the original image's offsets only within the 16 bytes at the cursor and, in
  patch mode, the 8 bytes at its site, and a step of make_bps.py at a cursor and a site
  that are not negative only within its trampoline at the cursor and the 10 bytes at its
  site. The steps of a run are chained: each works on the buffer that the step before it
  left, the first on the buffer the run starts with, and the buffer that the last step
  leaves is the image that the run writes.
\<close>

theorem stolen_bytes_read_from_mutable_buffer:
  "(inline_target ks ps buf nm spec st t = Inr st' \<and> accepted_site buf spec t = Some (s, gl, gb) \<longrightarrow>
      (\<exists>j. build_tramp ks (i_mod st) s (i_cur st) = Inr (steal (i_mod st) s @ j) \<and> length j = 8 \<and>
           patch_site ks ps
             (py_set_slice (i_mod st) (i_cur st)
                (i_cur st + int (length (steal (i_mod st) s @ j))) (steal (i_mod st) s @ j))
             s (i_cur st) = Inr (i_mod st'))) \<and>
   (inline_target ks ps buf nm spec st t = Inr st' \<and> accepted_site buf spec t = Some (s, gl, gb) \<and>
    0 \<le> i_cur st \<and> i_cur st \<le> int (length (i_mod st)) \<and>
    (\<not> ps \<or> s + STOLEN_SIZE \<le> i_cur st \<or> i_cur st + STOLEN_SIZE \<le> s) \<longrightarrow>
      py_slice (i_mod st') (i_cur st) (i_cur st + int (length (steal (i_mod st) s))) =
        py_slice (i_mod st) s (s + STOLEN_SIZE)) \<and>
   (bps_hook kb kd buf bst h = Inr bst' \<and> accepted_bps buf (snd h) = Some bs \<longrightarrow>
      (\<exists>tr d. bps_tramp kb (b_mod bst) bs (b_arena_cur bst) = Inr tr \<and>
           take (length (bps_steal (b_mod bst) bs)) tr = bps_steal (b_mod bst) bs \<and>
           assemble_detour kd 0 0 = Inr d \<and>
           b_mod bst' =
             py_set_slice
               (py_set_slice (b_mod bst) (b_arena_cur bst) (b_arena_cur bst + int (length tr)) tr)
               bs (bs + 10) d)) \<and>
   (bps_hook kb kd buf bst h = Inr bst' \<and> accepted_bps buf (snd h) = Some bs \<and>
    0 \<le> b_arena_cur bst \<and> b_arena_cur bst \<le> int (length (b_mod bst)) \<and> 0 \<le> bs \<and>
    (bs + 10 \<le> b_arena_cur bst \<or> b_arena_cur bst + 10 \<le> bs) \<longrightarrow>
      py_slice (b_mod bst') (b_arena_cur bst)
        (b_arena_cur bst + int (length (bps_steal (b_mod bst) bs))) =
        py_slice (b_mod bst) bs (bs + 10)) \<and>
   (agree_outside buf modb W \<and> 0 \<le> site \<and> site + STOLEN_SIZE \<le> int (length buf) \<and>
    {nat site ..< nat site + 8} \<inter> W = {} \<longrightarrow>
      steal modb site = py_slice buf site (site + STOLEN_SIZE)) \<and>
   (agree_outside buf modb W \<and> 0 \<le> site \<and> site + 10 \<le> int (length buf) \<and>
    {nat site ..< nat site + 10} \<inter> W = {} \<longrightarrow>
      bps_steal modb site = py_slice buf site (site + 10)) \<and>
   agree_outside buf (snd (inline_arena buf hooks)) {} \<and>
   agree_outside buf buf {} \<and>
   (inline_target ks ps buf nm spec st t = Inr st' \<and> 0 \<le> i_cur st \<and>
    agree_outside buf (i_mod st) W \<longrightarrow>
      agree_outside buf (i_mod st') (W \<union> touched ps (i_cur st) (accepted_site buf spec t))) \<and>
   (bps_hook kb kd buf bst h = Inr bst' \<and> 0 \<le> b_arena_cur bst \<and>
    agree_outside buf (b_mod bst) W \<and> accepted_bps buf (snd h) = Some bs \<and> 0 \<le> bs \<and>
    bps_tramp kb (b_mod bst) bs (b_arena_cur bst) = Inr btr \<longrightarrow>
      agree_outside buf (b_mod bst')
        (W \<union> {nat (b_arena_cur bst) ..< nat (b_arena_cur bst) + length btr}
           \<union> {nat bs ..< nat bs + 10})) \<and>
   (inline_main ks ps buf hooks = Inr (out, tbl) \<longrightarrow>
      (\<exists>stf. inline_hooks ks ps buf
               \<lparr>i_mod = snd (inline_arena buf hooks), i_cur = fst (inline_arena buf hooks),
                i_rows = [], i_hook_ids = []\<rparr> hooks = Inr stf \<and>
             out = i_mod stf)) \<and>
   (inline_hooks ks ps buf st ((nm, spec) # hs) = Inr st2 \<longrightarrow>
      (\<exists>st1. inline_targets ks ps buf nm spec st (targets_of spec) = Inr st1 \<and>
             inline_hooks ks ps buf st1 hs = Inr st2)) \<and>
   (inline_targets ks ps buf nm spec st (t # ts) = Inr st2 \<longrightarrow>
      (\<exists>st1. inline_target ks ps buf nm spec st t = Inr st1 \<and>
             inline_targets ks ps buf nm spec st1 ts = Inr st2)) \<and>
   (bps_arena buf hooks = Inr off \<and>
    bps_hooks kb kd buf \<lparr>b_mod = buf, b_arena_cur = off, b_hook_records = []\<rparr> hooks = Inr bstf \<longrightarrow>
      fst (bps_main kb kd fc fa buf hooks fs) Build_code_mod = Some (b_mod bstf)) \<and>
   (bps_hooks kb kd buf bst (h # bhs) = Inr bst2 \<longrightarrow>
      (\<exists>bst1. bps_hook kb kd buf bst h = Inr bst1 \<and> bps_hooks kb kd buf bst1 bhs = Inr bst2))"
proof -
  have c1: "inline_target ks ps buf nm spec st t = Inr st' \<and> accepted_site buf spec t = Some (s, gl, gb) \<longrightarrow>
      (\<exists>j. build_tramp ks (i_mod st) s (i_cur st) = Inr (steal (i_mod st) s @ j) \<and> length j = 8 \<and>
           patch_site ks ps
             (py_set_slice (i_mod st) (i_cur st)
                (i_cur st + int (length (steal (i_mod st) s @ j))) (steal (i_mod st) s @ j))
             s (i_cur st) = Inr (i_mod st'))"
    using inline_target_steals_from_mod [of ks ps buf nm spec st t st' s gl gb] by blast
  have c2: "inline_target ks ps buf nm spec st t = Inr st' \<and> accepted_site buf spec t = Some (s, gl, gb) \<and>
    0 \<le> i_cur st \<and> i_cur st \<le> int (length (i_mod st)) \<and>
    (\<not> ps \<or> s + STOLEN_SIZE \<le> i_cur st \<or> i_cur st + STOLEN_SIZE \<le> s) \<longrightarrow>
      py_slice (i_mod st') (i_cur st) (i_cur st + int (length (steal (i_mod st) s))) =
        py_slice (i_mod st) s (s + STOLEN_SIZE)"
    using inline_slot_holds_stolen [of ks ps buf nm spec st t st' s gl gb]
    by (simp add: steal_def)
  have c3: "bps_hook kb kd buf bst h = Inr bst' \<and> accepted_bps buf (snd h) = Some bs \<longrightarrow>
      (\<exists>tr d. bps_tramp kb (b_mod bst) bs (b_arena_cur bst) = Inr tr \<and>
           take (length (bps_steal (b_mod bst) bs)) tr = bps_steal (b_mod bst) bs \<and>
           assemble_detour kd 0 0 = Inr d \<and>
           b_mod bst' =
             py_set_slice
               (py_set_slice (b_mod bst) (b_arena_cur bst) (b_arena_cur bst + int (length tr)) tr)
               bs (bs + 10) d)"
    using bps_hook_steals_from_mod [of kb kd buf bst h bst' bs] by blast
  have c4: "bps_hook kb kd buf bst h = Inr bst' \<and> accepted_bps buf (snd h) = Some bs \<and>
    0 \<le> b_arena_cur bst \<and> b_arena_cur bst \<le> int (length (b_mod bst)) \<and> 0 \<le> bs \<and>
    (bs + 10 \<le> b_arena_cur bst \<or> b_arena_cur bst + 10 \<le> bs) \<longrightarrow>
      py_slice (b_mod bst') (b_arena_cur bst)
        (b_arena_cur bst + int (length (bps_steal (b_mod bst) bs))) =
        py_slice (b_mod bst) bs (bs + 10)"
    using bps_slot_holds_stolen [of kb kd buf bst h bst' bs]
    by (simp add: bps_steal_def)
  have c5: "agree_outside buf modb W \<and> 0 \<le> site \<and> site + STOLEN_SIZE \<le> int (length buf) \<and>
    {nat site ..< nat site + 8} \<inter> W = {} \<longrightarrow>
      steal modb site = py_slice buf site (site + STOLEN_SIZE)"
    using steal_agree [of buf modb W site] by blast
  have c6: "agree_outside buf modb W \<and> 0 \<le> site \<and> site + 10 \<le> int (length buf) \<and>
    {nat site ..< nat site + 10} \<inter> W = {} \<longrightarrow>
      bps_steal modb site = py_slice buf site (site + 10)"
    using bps_steal_agree [of buf modb W site] by blast
  have c7: "agree_outside buf (snd (inline_arena buf hooks)) {}"
    by (rule agree_outside_start)
  have c8: "agree_outside buf buf {}"
    by (rule agree_outside_refl)
  have c9: "inline_target ks ps buf nm spec st t = Inr st' \<and> 0 \<le> i_cur st \<and>
    agree_outside buf (i_mod st) W \<longrightarrow>
      agree_outside buf (i_mod st') (W \<union> touched ps (i_cur st) (accepted_site buf spec t))"
    using inline_target_frame [of ks ps buf nm spec st t st' W] by blast
  have c10: "bps_hook kb kd buf bst h = Inr bst' \<and> 0 \<le> b_arena_cur bst \<and>
    agree_outside buf (b_mod bst) W \<and> accepted_bps buf (snd h) = Some bs \<and> 0 \<le> bs \<and>
    bps_tramp kb (b_mod bst) bs (b_arena_cur bst) = Inr btr \<longrightarrow>
      agree_outside buf (b_mod bst')
        (W \<union> {nat (b_arena_cur bst) ..< nat (b_arena_cur bst) + length btr}
           \<union> {nat bs ..< nat bs + 10})"
    using bps_hook_frame [of kb kd buf bst h bst' W bs btr] by blast
  have c11: "inline_main ks ps buf hooks = Inr (out, tbl) \<longrightarrow>
      (\<exists>stf. inline_hooks ks ps buf
               \<lparr>i_mod = snd (inline_arena buf hooks), i_cur = fst (inline_arena buf hooks),
                i_rows = [], i_hook_ids = []\<rparr> hooks = Inr stf \<and>
             out = i_mod stf)"
    using inline_main_Inr [of ks ps buf hooks out tbl] by blast
  have c12: "inline_hooks ks ps buf st ((nm, spec) # hs) = Inr st2 \<longrightarrow>
      (\<exists>st1. inline_targets ks ps buf nm spec st (targets_of spec) = Inr st1 \<and>
             inline_hooks ks ps buf st1 hs = Inr st2)"
    by (auto split: sum.splits)
  have c13: "inline_targets ks ps buf nm spec st (t # ts) = Inr st2 \<longrightarrow>
      (\<exists>st1. inline_target ks ps buf nm spec st t = Inr st1 \<and>
             inline_targets ks ps buf nm spec st1 ts = Inr st2)"
    by (auto split: sum.splits)
  have c14: "bps_arena buf hooks = Inr off \<and>
    bps_hooks kb kd buf \<lparr>b_mod = buf, b_arena_cur = off, b_hook_records = []\<rparr> hooks = Inr bstf \<longrightarrow>
      fst (bps_main kb kd fc fa buf hooks fs) Build_code_mod = Some (b_mod bstf)"
    using bps_main_outputs [of buf hooks off kb kd bstf fc fa fs]
    by (simp add: bps_outputs_image)
  have c15: "bps_hooks kb kd buf bst (h # bhs) = Inr bst2 \<longrightarrow>
      (\<exists>bst1. bps_hook kb kd buf bst h = Inr bst1 \<and> bps_hooks kb kd buf bst1 bhs = Inr bst2)"
    by (auto split: sum.splits)
  show ?thesis
    by (intro conjI) (rule c1, rule c2, rule c3, rule c4, rule c5, rule c6, rule c7, rule c8,
        rule c9, rule c10, rule c11, rule c12, rule c13, rule c14, rule c15)
qed

theorem stolen_bytes_read_from_mutable_buffer_witness:
  "(\<exists>st'. inline_target ks_arm True ten_bytes ''h'' addr0_spec
             \<lparr>i_mod = after_first_hook, i_cur = 106, i_rows = [], i_hook_ids = []\<rparr> (Addr 0) = Inr st' \<and>
          py_slice (i_mod st') 106 114 = [0x04, 0xF0, 0x1F, 0xE5, 0x0A, 0x00, 0x10, 0x00] \<and>
          agree_outside ten_bytes (i_mod st') ({10 ..< 26} \<union> {0 ..< 8} \<union> ({106 ..< 122} \<union> {0 ..< 8}))) \<and>
   py_slice after_first_hook 0 8 = [0x04, 0xF0, 0x1F, 0xE5, 0x0A, 0x00, 0x10, 0x00] \<and>
   py_slice ten_bytes 0 8 = [1, 2, 3, 4, 5, 6, 7, 8] \<and>
   agree_outside ten_bytes after_first_hook ({10 ..< 26} \<union> {0 ..< 8}) \<and>
   (\<exists>bst'. bps_hook ks_branch_stub ks_detour_zero ten_bytes
              \<lparr>b_mod = overwritten_site, b_arena_cur = 10, b_hook_records = []\<rparr> (''h'', addr0_spec) = Inr bst' \<and>
           py_slice (b_mod bst') 10 20 = replicate 10 0xEE \<and>
           agree_outside ten_bytes (b_mod bst') ({0 ..< 10} \<union> {10 ..< 26} \<union> {0 ..< 10})) \<and>
   agree_outside ten_bytes written_behind {10 ..< 26} \<and>
   steal written_behind 0 = [1, 2, 3, 4, 5, 6, 7, 8] \<and>
   bps_steal written_behind 0 = ten_bytes \<and>
   (\<exists>stf. inline_hooks ks_arm True ten_bytes
             \<lparr>i_mod = ten_bytes @ replicate 192 0, i_cur = 10, i_rows = [], i_hook_ids = []\<rparr>
             hook_same_site_twice = Inr stf \<and>
          i_mod stf = twice_out \<and>
          inline_targets ks_arm True ten_bytes ''h''
            \<lparr>spec_addr = Multi [Addr 0, Addr 0], spec_aob = None, spec_guard = None\<rparr>
            \<lparr>i_mod = after_first_hook, i_cur = 106,
             i_rows = [\<lparr>name = ''h'', site_off = 0, tramp_off = 10, guard = [], guard_len = 0\<rparr>],
             i_hook_ids = [''h'']\<rparr> [Addr 0] = Inr stf) \<and>
   (\<exists>bstf b1. bps_hooks ks_branch_stub ks_detour_zero cave_image
                \<lparr>b_mod = cave_image, b_arena_cur = 2, b_hook_records = []\<rparr> [(''h'', addr0_spec)] =
                Inr bstf \<and>
              bps_hook ks_branch_stub ks_detour_zero cave_image
                \<lparr>b_mod = cave_image, b_arena_cur = 2, b_hook_records = []\<rparr> (''h'', addr0_spec) =
                Inr b1 \<and>
              bps_hooks ks_branch_stub ks_detour_zero cave_image b1 [] = Inr bstf \<and>
              fst (bps_main ks_branch_stub ks_detour_zero flips_whole flips_apply_whole cave_image
                     [(''h'', addr0_spec)] no_files) Build_code_mod = Some (b_mod bstf))"
proof -
  let ?i0 = "\<lparr>i_mod = ten_bytes @ replicate 192 0, i_cur = 10, i_rows = [], i_hook_ids = []\<rparr>"
  let ?i1 = "\<lparr>i_mod = after_first_hook, i_cur = 106, i_rows = [], i_hook_ids = []\<rparr>"
  let ?b0 = "\<lparr>b_mod = overwritten_site, b_arena_cur = 10, b_hook_records = []\<rparr>"
  let ?W1 = "{10 ..< 26} \<union> {0 ..< 8} :: nat set"
  have acc: "accepted_site ten_bytes addr0_spec (Addr 0) = Some (0, 0, [])" by code_simp
  have bacc: "accepted_bps ten_bytes (snd (''h'', addr0_spec)) = Some 0" by code_simp
  have nr: "\<not> target_raises ten_bytes addr0_spec (Addr 0)" by code_simp
  have ar: "snd (inline_arena ten_bytes hook_same_site_twice) = ten_bytes @ replicate 192 0"
    by code_simp
  have first: "inline_target ks_arm True ten_bytes ''h'' addr0_spec ?i0 (Addr 0) =
      Inr \<lparr>i_mod = after_first_hook, i_cur = 106,
           i_rows = [\<lparr>name = ''h'', site_off = 0, tramp_off = 10, guard = [], guard_len = 0\<rparr>],
           i_hook_ids = [''h'']\<rparr>"
    by code_simp
  have o: "py_slice ten_bytes 0 8 = [1, 2, 3, 4, 5, 6, 7, 8]" by code_simp
  have d1: "py_slice after_first_hook 0 8 = [0x04, 0xF0, 0x1F, 0xE5, 0x0A, 0x00, 0x10, 0x00]"
    by code_simp
  have l1: "length (steal after_first_hook 0) = 8" by code_simp
  have la: "length after_first_hook = 202" by code_simp
  note w0 = stolen_bytes_read_from_mutable_buffer
    [where ks = ks_arm and ps = True and buf = ten_bytes and nm = "''h''" and spec = addr0_spec
       and st = ?i0 and t = "Addr 0" and hooks = hook_same_site_twice and W = "{}"
       and st' = "\<lparr>i_mod = after_first_hook, i_cur = 106,
           i_rows = [\<lparr>name = ''h'', site_off = 0, tramp_off = 10, guard = [], guard_len = 0\<rparr>],
           i_hook_ids = [''h'']\<rparr>"]
  from w0 [THEN conjunct2, THEN conjunct2, THEN conjunct2, THEN conjunct2, THEN conjunct2, THEN conjunct2, THEN conjunct1]
  have "agree_outside ten_bytes (snd (inline_arena ten_bytes hook_same_site_twice)) {}" .
  then have ag0: "agree_outside ten_bytes (i_mod ?i0) {}" by (simp add: ar)
  have c0: "0 \<le> i_cur ?i0" by simp
  from w0 [THEN conjunct2, THEN conjunct2, THEN conjunct2, THEN conjunct2, THEN conjunct2, THEN conjunct2, THEN conjunct2, THEN conjunct2, THEN conjunct1] first c0 ag0
  have "agree_outside ten_bytes after_first_hook
          ({} \<union> touched True (i_cur ?i0) (accepted_site ten_bytes addr0_spec (Addr 0)))"
    by simp
  then have ag1: "agree_outside ten_bytes after_first_hook ?W1"
    by (simp add: acc touched_def)
  from inline_target_ok [OF assembles_ks_arm nr] obtain st' where
    r: "inline_target ks_arm True ten_bytes ''h'' addr0_spec ?i1 (Addr 0) = Inr st'" by blast
  note w1 = stolen_bytes_read_from_mutable_buffer
    [where ks = ks_arm and ps = True and buf = ten_bytes and nm = "''h''" and spec = addr0_spec
       and st = ?i1 and t = "Addr 0" and st' = st' and s = 0 and gl = 0 and gb = "[]"
       and W = ?W1]
  from w1 [THEN conjunct2, THEN conjunct1] r acc
  have "py_slice (i_mod st') (i_cur ?i1) (i_cur ?i1 + int (length (steal (i_mod ?i1) 0))) =
        py_slice (i_mod ?i1) 0 (0 + STOLEN_SIZE)"
    by (simp add: la STOLEN_SIZE_def)
  then have s1: "py_slice (i_mod st') 106 114 = [0x04, 0xF0, 0x1F, 0xE5, 0x0A, 0x00, 0x10, 0x00]"
    by (simp add: l1 d1 STOLEN_SIZE_def)
  from w1 [THEN conjunct2, THEN conjunct2, THEN conjunct2, THEN conjunct2, THEN conjunct2, THEN conjunct2, THEN conjunct2, THEN conjunct2, THEN conjunct1] r ag1
  have "agree_outside ten_bytes (i_mod st')
          (?W1 \<union> touched True (i_cur ?i1) (accepted_site ten_bytes addr0_spec (Addr 0)))"
    by simp
  then have f1: "agree_outside ten_bytes (i_mod st') (?W1 \<union> ({106 ..< 122} \<union> {0 ..< 8}))"
    by (simp add: acc touched_def)
  have "\<not> isl (bps_hook ks_branch_stub ks_detour_zero ten_bytes ?b0 (''h'', addr0_spec))"
    by code_simp
  then obtain bst' where
    q: "bps_hook ks_branch_stub ks_detour_zero ten_bytes ?b0 (''h'', addr0_spec) = Inr bst'"
    by (cases "bps_hook ks_branch_stub ks_detour_zero ten_bytes ?b0 (''h'', addr0_spec)") auto
  have bt: "bps_tramp ks_branch_stub overwritten_site 0 10 =
      Inr (replicate 10 0xEE @ [0x00, 0xBF, 0x00, 0xF0, 0x00, 0xB8])"
    by code_simp
  have lb: "length overwritten_site = 42" by code_simp
  have l2: "length (bps_steal overwritten_site 0) = 10" by code_simp
  have d2: "py_slice overwritten_site 0 10 = replicate 10 0xEE" by code_simp
  have agb: "agree_outside ten_bytes overwritten_site {0 ..< 10}"
    by (simp add: agree_outside_def overwritten_site_def ten_bytes_def)
  note w2 = stolen_bytes_read_from_mutable_buffer
    [where kb = ks_branch_stub and kd = ks_detour_zero and buf = ten_bytes and bst = ?b0
       and h = "(''h'', addr0_spec)" and bst' = bst' and bs = 0 and W = "{0 ..< 10}"
       and btr = "replicate 10 0xEE @ [0x00, 0xBF, 0x00, 0xF0, 0x00, 0xB8]"]
  from w2 [THEN conjunct2, THEN conjunct2, THEN conjunct2, THEN conjunct1] q bacc
  have "py_slice (b_mod bst') (b_arena_cur ?b0)
          (b_arena_cur ?b0 + int (length (bps_steal (b_mod ?b0) 0))) =
        py_slice (b_mod ?b0) 0 (0 + 10)"
    by (simp add: lb)
  then have s2: "py_slice (b_mod bst') 10 20 = replicate 10 0xEE"
    by (simp add: l2 d2)
  from w2 [THEN conjunct2, THEN conjunct2, THEN conjunct2, THEN conjunct2, THEN conjunct2, THEN conjunct2, THEN conjunct2, THEN conjunct2, THEN conjunct2, THEN conjunct1] q bacc agb bt
  have "agree_outside ten_bytes (b_mod bst')
          ({0 ..< 10} \<union> {nat (b_arena_cur ?b0) ..< nat (b_arena_cur ?b0) +
              length (replicate 10 (0xEE :: byte) @ [0x00, 0xBF, 0x00, 0xF0, 0x00, 0xB8])}
           \<union> {nat 0 ..< nat 0 + 10})"
    by simp
  then have f2: "agree_outside ten_bytes (b_mod bst') ({0 ..< 10} \<union> {10 ..< 26} \<union> {0 ..< 10})"
    by simp
  have agw: "agree_outside ten_bytes written_behind {10 ..< 26}"
    by (simp add: agree_outside_def written_behind_def nth_append)
  note w3 = stolen_bytes_read_from_mutable_buffer
    [where buf = ten_bytes and modb = written_behind and W = "{10 ..< 26}" and site = 0]
  have len: "(0::int) + STOLEN_SIZE \<le> int (length ten_bytes)" "(0::int) + 10 \<le> int (length ten_bytes)"
    by (simp_all add: STOLEN_SIZE_def ten_bytes_def)
  have t10: "py_slice ten_bytes 0 10 = ten_bytes" by code_simp
  from w3 [THEN conjunct2, THEN conjunct2, THEN conjunct2, THEN conjunct2, THEN conjunct1] w3 [THEN conjunct2, THEN conjunct2, THEN conjunct2, THEN conjunct2, THEN conjunct2, THEN conjunct1] agw len
  have "steal written_behind 0 = py_slice ten_bytes 0 (0 + STOLEN_SIZE)"
    and "bps_steal written_behind 0 = py_slice ten_bytes 0 (0 + 10)"
    by simp_all
  then have s3: "steal written_behind 0 = [1, 2, 3, 4, 5, 6, 7, 8]"
    and s4: "bps_steal written_behind 0 = ten_bytes"
    by (simp_all add: o t10 STOLEN_SIZE_def)
  from r s1 f1 have e1: "\<exists>st'. inline_target ks_arm True ten_bytes ''h'' addr0_spec ?i1 (Addr 0) = Inr st' \<and>
          py_slice (i_mod st') 106 114 = [0x04, 0xF0, 0x1F, 0xE5, 0x0A, 0x00, 0x10, 0x00] \<and>
          agree_outside ten_bytes (i_mod st') (?W1 \<union> ({106 ..< 122} \<union> {0 ..< 8}))"
    by (intro exI [of _ st'] conjI)
  from q s2 f2 have e2: "\<exists>bst'. bps_hook ks_branch_stub ks_detour_zero ten_bytes ?b0 (''h'', addr0_spec) = Inr bst' \<and>
           py_slice (b_mod bst') 10 20 = replicate 10 0xEE \<and>
           agree_outside ten_bytes (b_mod bst') ({0 ..< 10} \<union> {10 ..< 26} \<union> {0 ..< 10})"
    by (intro exI [of _ bst'] conjI)
  let ?sp = "\<lparr>spec_addr = Multi [Addr 0, Addr 0], spec_aob = None, spec_guard = None\<rparr>"
  let ?s1 = "\<lparr>i_mod = after_first_hook, i_cur = 106,
             i_rows = [\<lparr>name = ''h'', site_off = 0, tramp_off = 10, guard = [], guard_len = 0\<rparr>],
             i_hook_ids = [''h'']\<rparr>"
  have ar2: "inline_arena ten_bytes hook_same_site_twice = (10, ten_bytes @ replicate 192 0)"
    by code_simp
  have hk: "hook_same_site_twice = (''h'', ?sp) # []" by (simp add: hook_same_site_twice_def)
  have tg: "targets_of ?sp = Addr 0 # [Addr 0]" by (simp add: targets_of_def)
  have first': "inline_target ks_arm True ten_bytes ''h'' ?sp ?i0 (Addr 0) = Inr ?s1"
    by code_simp
  from stolen_bytes_read_from_mutable_buffer
    [where ks = ks_arm and ps = True and buf = ten_bytes and hooks = hook_same_site_twice
       and out = twice_out and tbl = twice_table, THEN conjunct2, THEN conjunct2, THEN conjunct2, THEN conjunct2, THEN conjunct2, THEN conjunct2, THEN conjunct2, THEN conjunct2, THEN conjunct2, THEN conjunct2, THEN conjunct1] same_site_run
  obtain stf where
    "inline_hooks ks_arm True ten_bytes
       \<lparr>i_mod = snd (inline_arena ten_bytes hook_same_site_twice),
        i_cur = fst (inline_arena ten_bytes hook_same_site_twice),
        i_rows = [], i_hook_ids = []\<rparr> hook_same_site_twice = Inr stf"
    and of: "twice_out = i_mod stf"
    by blast
  then have rf: "inline_hooks ks_arm True ten_bytes ?i0 hook_same_site_twice = Inr stf"
    by (simp add: ar2)
  then have rf': "inline_hooks ks_arm True ten_bytes ?i0 ((''h'', ?sp) # []) = Inr stf"
    by (simp only: hk)
  from stolen_bytes_read_from_mutable_buffer
    [where ks = ks_arm and ps = True and buf = ten_bytes and st = ?i0 and nm = "''h''"
       and spec = ?sp and hs = "[]" and ?st2.0 = stf, THEN conjunct2, THEN conjunct2, THEN conjunct2, THEN conjunct2, THEN conjunct2, THEN conjunct2, THEN conjunct2, THEN conjunct2, THEN conjunct2, THEN conjunct2, THEN conjunct2, THEN conjunct1] rf'
  obtain st1 where
    "inline_targets ks_arm True ten_bytes ''h'' ?sp ?i0 (targets_of ?sp) = Inr st1"
    and "inline_hooks ks_arm True ten_bytes st1 [] = Inr stf"
    by blast
  then have rt: "inline_targets ks_arm True ten_bytes ''h'' ?sp ?i0 (Addr 0 # [Addr 0]) = Inr stf"
    by (simp add: tg)
  from stolen_bytes_read_from_mutable_buffer
    [where ks = ks_arm and ps = True and buf = ten_bytes and st = ?i0 and nm = "''h''"
       and spec = ?sp and t = "Addr 0" and ts = "[Addr 0]" and ?st2.0 = stf, THEN conjunct2, THEN conjunct2, THEN conjunct2, THEN conjunct2, THEN conjunct2, THEN conjunct2, THEN conjunct2, THEN conjunct2, THEN conjunct2, THEN conjunct2, THEN conjunct2, THEN conjunct2, THEN conjunct1] rt
  obtain s1 where
    "inline_target ks_arm True ten_bytes ''h'' ?sp ?i0 (Addr 0) = Inr s1"
    and "inline_targets ks_arm True ten_bytes ''h'' ?sp s1 [Addr 0] = Inr stf"
    by blast
  with first' have rs: "inline_targets ks_arm True ten_bytes ''h'' ?sp ?s1 [Addr 0] = Inr stf"
    by simp
  from rf of rs have e3: "\<exists>stf. inline_hooks ks_arm True ten_bytes ?i0 hook_same_site_twice = Inr stf \<and>
          i_mod stf = twice_out \<and>
          inline_targets ks_arm True ten_bytes ''h'' ?sp ?s1 [Addr 0] = Inr stf"
    by (intro exI [of _ stf] conjI) simp_all
  let ?c0 = "\<lparr>b_mod = cave_image, b_arena_cur = 2, b_hook_records = []\<rparr>"
  let ?bh = "[(''h'', addr0_spec)]"
  have bar: "bps_arena cave_image ?bh = Inr 2" by code_simp
  have "\<not> isl (bps_hooks ks_branch_stub ks_detour_zero cave_image ?c0 ?bh)"
    by code_simp
  then obtain bstf where
    bq: "bps_hooks ks_branch_stub ks_detour_zero cave_image ?c0 ?bh = Inr bstf"
    by (cases "bps_hooks ks_branch_stub ks_detour_zero cave_image ?c0 ?bh") auto
  note w5 = stolen_bytes_read_from_mutable_buffer
    [where kb = ks_branch_stub and kd = ks_detour_zero and buf = cave_image and hooks = ?bh
       and off = 2 and bstf = bstf and fc = flips_whole and fa = flips_apply_whole
       and fs = no_files and bst = ?c0 and h = "(''h'', addr0_spec)" and bhs = "[]"
       and ?bst2.0 = bstf]
  from w5 [THEN conjunct2, THEN conjunct2, THEN conjunct2, THEN conjunct2, THEN conjunct2, THEN conjunct2, THEN conjunct2, THEN conjunct2, THEN conjunct2, THEN conjunct2, THEN conjunct2, THEN conjunct2, THEN conjunct2, THEN conjunct1] bar bq have im: "fst (bps_main ks_branch_stub ks_detour_zero flips_whole flips_apply_whole
      cave_image ?bh no_files) Build_code_mod = Some (b_mod bstf)"
    by blast
  from w5 [THEN conjunct2, THEN conjunct2, THEN conjunct2, THEN conjunct2, THEN conjunct2, THEN conjunct2, THEN conjunct2, THEN conjunct2, THEN conjunct2, THEN conjunct2, THEN conjunct2, THEN conjunct2, THEN conjunct2, THEN conjunct2] bq obtain b1 where
    b1: "bps_hook ks_branch_stub ks_detour_zero cave_image ?c0 (''h'', addr0_spec) = Inr b1"
    and b2: "bps_hooks ks_branch_stub ks_detour_zero cave_image b1 [] = Inr bstf"
    by blast
  from bq b1 b2 im have e4: "\<exists>bstf b1. bps_hooks ks_branch_stub ks_detour_zero cave_image ?c0 ?bh = Inr bstf \<and>
      bps_hook ks_branch_stub ks_detour_zero cave_image ?c0 (''h'', addr0_spec) = Inr b1 \<and>
      bps_hooks ks_branch_stub ks_detour_zero cave_image b1 [] = Inr bstf \<and>
      fst (bps_main ks_branch_stub ks_detour_zero flips_whole flips_apply_whole cave_image
             ?bh no_files) Build_code_mod = Some (b_mod bstf)"
    by (intro exI [of _ bstf] exI [of _ b1] conjI)
  from e1 d1 o ag1 e2 agw s3 s4 e3 e4 show ?thesis by (simp only: simp_thms)
qed

theorem second_trampoline_holds_first_detour:
  "inline_main ks_arm True ten_bytes hook_same_site_twice = Inr (twice_out, twice_table) \<and>
   map entry_site_off (kHooks twice_table) = [0, 0] \<and>
   map entry_tramp_off (kHooks twice_table) = [10, 106] \<and>
   py_slice ten_bytes 0 8 = [1, 2, 3, 4, 5, 6, 7, 8] \<and>
   py_slice twice_out 10 18 = [1, 2, 3, 4, 5, 6, 7, 8] \<and>
   py_slice twice_out 106 114 = [0x04, 0xF0, 0x1F, 0xE5, 0x0A, 0x00, 0x10, 0x00]"
proof -
  have o: "py_slice ten_bytes 0 8 = [1, 2, 3, 4, 5, 6, 7, 8]" by code_simp
  have t1: "py_slice twice_out 10 18 = [1, 2, 3, 4, 5, 6, 7, 8]" by code_simp
  have t2: "py_slice twice_out 106 114 = [0x04, 0xF0, 0x1F, 0xE5, 0x0A, 0x00, 0x10, 0x00]"
    by code_simp
  from same_site_run o t1 t2 show ?thesis by (simp add: twice_table_def)
qed

end
